theory Spec2Isabelle
  imports Complex_Main
begin

section \<open>JavaScript values used by the scraper\<close>

text \<open>
  A JavaScript string is a sequence of UTF-16 code units; the regular expressions of
  \<^verbatim>\<open>scraper.service.ts\<close> carry no \<^verbatim>\<open>u\<close> flag and so work on code units. Texts are
  lists of code units, written as numbers: U+6E80 U+5E2D is the full marker, U+00D7 the
  cross, U+6B8B the "remaining" prefix, U+5E2D the seat counter, U+53F0 the unit counter,
  U+5168 the "all" prefix, U+30C0 U+30FC U+30C4 the darts category name.
  ASCII literals are embedded with \<open>ascii\<close>.
\<close>

type_synonym jsstring = "nat list"

definition ascii :: "string \<Rightarrow> jsstring" where
  "ascii s = map of_char s"

text \<open>
  A JavaScript number, as far as this program meets one: a double whose value is an
  integer (\<open>Num n\<close>, with \<open>n\<close> representable; the two zeros are one value),
  \<open>NaN\<close>, or an infinity.
\<close>

datatype jsnum = Num int | NaN | PosInf | NegInf

text \<open>The number of binary digits of a natural number.\<close>

fun bitLength :: "nat \<Rightarrow> nat" where
  "bitLength n = (if n = 0 then 0 else Suc (bitLength (n div 2)))"

declare bitLength.simps [simp del]

text \<open>
  The double for a mathematical integer: the integer itself below \<open>2 ^ 53\<close>; beyond,
  the nearest number with 53 significant binary digits, a tie going to the even one, and
  an infinity once that number reaches \<open>2 ^ 1024\<close>.
\<close>

definition toDouble :: "int \<Rightarrow> jsnum" where
  "toDouble n =
     (let m = nat \<bar>n\<bar>
      in if m < 2 ^ 53 then Num n
         else
           (let e = bitLength m - 53;
                q = m div 2 ^ e;
                r = m mod 2 ^ e;
                half = 2 ^ (e - 1);
                q' = (if r > half \<or> (r = half \<and> odd q) then q + 1 else q);
                v = q' * 2 ^ e
            in if v \<ge> 2 ^ 1024 then (if n < 0 then NegInf else PosInf)
               else Num (if n < 0 then - int v else int v)))"

definition is_digit :: "nat \<Rightarrow> bool" where
  "is_digit c \<longleftrightarrow> 48 \<le> c \<and> c \<le> 57"

text \<open>The class \<^verbatim>\<open>\s\<close>: WhiteSpace and LineTerminator of ECMAScript.\<close>

definition is_space :: "nat \<Rightarrow> bool" where
  "is_space c \<longleftrightarrow> c \<in> set [9, 10, 11, 12, 13, 32, 160, 5760, 8192, 8193, 8194, 8195,
     8196, 8197, 8198, 8199, 8200, 8201, 8202, 8232, 8233, 8239, 8287, 12288, 65279]"

subsection \<open>The regular expressions, as data, and a backtracking matcher\<close>

text \<open>
  Every regular expression of the availability parsers is a sequence of single-character
  atoms (a literal, \<^verbatim>\<open>\d\<close> or \<^verbatim>\<open>[\s]\<close>), each with a greedy quantifier (none,
  \<^verbatim>\<open>?\<close>, \<^verbatim>\<open>*\<close>, \<^verbatim>\<open>+\<close>), one of them inside the only capture group.
\<close>

datatype cls = Chr nat | Digit | Space

fun cls_test :: "cls \<Rightarrow> nat \<Rightarrow> bool" where
  "cls_test (Chr c) x = (x = c)"
| "cls_test Digit x = is_digit x"
| "cls_test Space x = is_space x"

datatype quant = One | Opt | Star | Plus

datatype rx = Atom cls quant | Capture cls quant

fun rx_cls :: "rx \<Rightarrow> cls" where
  "rx_cls (Atom c q) = c"
| "rx_cls (Capture c q) = c"

fun rx_quant :: "rx \<Rightarrow> quant" where
  "rx_quant (Atom c q) = q"
| "rx_quant (Capture c q) = q"

fun rx_captures :: "rx \<Rightarrow> bool" where
  "rx_captures (Atom c q) = False"
| "rx_captures (Capture c q) = True"

text \<open>
  The repetition counts a greedy quantifier tries, in backtracking order (longest first),
  when \<open>n\<close> characters of its class stand at the front of the input.
\<close>

fun counts :: "quant \<Rightarrow> nat \<Rightarrow> nat list" where
  "counts One n = (if 1 \<le> n then [1] else [])"
| "counts Opt n = (if 1 \<le> n then [1, 0] else [0])"
| "counts Star n = rev [0..<Suc n]"
| "counts Plus n = rev [1..<Suc n]"

fun firstSome :: "('a \<Rightarrow> 'b option) \<Rightarrow> 'a list \<Rightarrow> 'b option" where
  "firstSome f [] = None"
| "firstSome f (x # xs) = (case f x of Some y \<Rightarrow> Some y | None \<Rightarrow> firstSome f xs)"

text \<open>
  \<open>matchHere ps s\<close>: the pattern matched at the front of \<open>s\<close>; the result is the text
  of the capture group in the first alternative that succeeds (\<open>match[1]\<close>), \<open>None\<close>
  when every alternative fails.
\<close>

primrec matchHere :: "rx list \<Rightarrow> jsstring \<Rightarrow> jsstring option" where
  "matchHere [] s = Some []"
| "matchHere (p # ps) s =
     firstSome
       (\<lambda>k. case matchHere ps (drop k s) of
              None \<Rightarrow> None
            | Some g \<Rightarrow> Some (if rx_captures p then take k s else g))
       (counts (rx_quant p) (length (takeWhile (cls_test (rx_cls p)) s)))"

text \<open>
  \<^verbatim>\<open>text.match(re)\<close> for a regular expression without the \<^verbatim>\<open>g\<close> flag: the leftmost
  start position with a match wins. The result is \<open>match[1]\<close>, \<open>None\<close> for \<^verbatim>\<open>null\<close>.
\<close>

fun regexMatch :: "rx list \<Rightarrow> jsstring \<Rightarrow> jsstring option" where
  "regexMatch ps [] = matchHere ps []"
| "regexMatch ps (c # s) =
     (case matchHere ps (c # s) of Some g \<Rightarrow> Some g | None \<Rightarrow> regexMatch ps s)"

subsection \<open>parseInt\<close>

fun digitsValue :: "int \<Rightarrow> jsstring \<Rightarrow> int" where
  "digitsValue acc [] = acc"
| "digitsValue acc (c # cs) = digitsValue (10 * acc + (int c - 48)) cs"

text \<open>
  \<^verbatim>\<open>parseInt(s, 10)\<close>: leading white space is skipped, a sign is read, then the longest
  run of decimal digits; no digit gives \<open>NaN\<close>, and the integer that the digits write
  is returned as a double.
\<close>

definition parseInt :: "jsstring \<Rightarrow> jsnum" where
  "parseInt s =
     (let s1 = dropWhile is_space s;
          neg = (case s1 of [] \<Rightarrow> False | c # r \<Rightarrow> c = 45);
          s2 = (case s1 of [] \<Rightarrow> [] | c # r \<Rightarrow> if c = 45 \<or> c = 43 then r else s1);
          ds = takeWhile is_digit s2
      in if ds = [] then NaN
         else toDouble ((if neg then - 1 else 1) * digitsValue 0 ds))"

section \<open>The normalizer of the structured payload\<close>

text \<open>\<^verbatim>\<open>/\<close>U+6B8B\<^verbatim>\<open>?(\d+)\<close>U+5E2D\<^verbatim>\<open>/\<close>, the pattern of \<^verbatim>\<open>parseSeatStatus\<close>.\<close>

definition seatRegex :: "rx list" where
  "seatRegex = [Atom (Chr 0x6B8B) Opt, Capture Digit Plus, Atom (Chr 0x5E2D) One]"

definition parseSeatStatus :: "jsstring \<Rightarrow> jsnum" where
  "parseSeatStatus status =
     (if status = [0x6E80, 0x5E2D] \<or> status = [0xD7] then Num 0
      else case regexMatch seatRegex status of
             Some g \<Rightarrow> parseInt g
           | None \<Rightarrow> Num 0)"


text \<open>
  \<open>digitRun t s\<close>: the longest run of digits at the front of \<open>s\<close>, when it is not empty
  and the character \<open>t\<close> follows it. Used to state what the patterns match.
\<close>

definition digitRun :: "nat \<Rightarrow> jsstring \<Rightarrow> jsstring option" where
  "digitRun t s =
     (let d = takeWhile is_digit s
      in if d \<noteq> [] \<and> (case dropWhile is_digit s of [] \<Rightarrow> False | c # r \<Rightarrow> c = t)
         then Some d else None)"

datatype vacancy_status = Vacant | Crowded | Full | Unknown

record dartVacancy =
  dv_available :: jsnum
  dv_total :: jsnum
  dv_status :: vacancy_status

text \<open>\<^verbatim>\<open>mapStatusNo\<close>: a \<^verbatim>\<open>switch\<close> on the parsed status code.\<close>

fun mapStatusNo :: "jsnum \<Rightarrow> vacancy_status" where
  "mapStatusNo (Num n) =
     (if n = 1 then Vacant
      else if n = 2 then Crowded
      else if n = 3 then Crowded
      else if n = 4 then Full
      else Unknown)"
| "mapStatusNo NaN = Unknown"
| "mapStatusNo PosInf = Unknown"
| "mapStatusNo NegInf = Unknown"

text \<open>
  One entry of \<^verbatim>\<open>data.seat_type\<close>. The fields are strings of the upstream JSON; a
  missing \<^verbatim>\<open>status_no\<close> is \<open>None\<close> (JavaScript's \<^verbatim>\<open>undefined\<close>, which \<^verbatim>\<open>parseInt\<close>
  reads as the text "undefined").
\<close>

record seat =
  seat_name :: jsstring
  category_id :: jsstring
  seat_status :: jsstring
  status_no :: "jsstring option"

record payload =
  api_status :: int
  seat_type :: "seat list option"

definition parseIntAny :: "jsstring option \<Rightarrow> jsnum" where
  "parseIntAny v = (case v of None \<Rightarrow> parseInt (ascii ''undefined'') | Some s \<Rightarrow> parseInt s)"

definition isDartSeat :: "seat \<Rightarrow> bool" where
  "isDartSeat s \<longleftrightarrow> seat_name s = [0x30C0, 0x30FC, 0x30C4] \<or> category_id s = ascii ''10''"

text \<open>\<^verbatim>\<open>available > 0 ? available : 0\<close>; a comparison with \<open>NaN\<close> is false.\<close>

fun positiveOrZero :: "jsnum \<Rightarrow> jsnum" where
  "positiveOrZero (Num n) = (if n > 0 then Num n else Num 0)"
| "positiveOrZero NaN = Num 0"
| "positiveOrZero PosInf = PosInf"
| "positiveOrZero NegInf = Num 0"

text \<open>\<^verbatim>\<open>data.seat_type?.find(...)\<close>: the first entry of the darts category, if any.\<close>

definition findDartInfo :: "payload \<Rightarrow> seat option" where
  "findDartInfo data =
     (case seat_type data of None \<Rightarrow> None | Some seats \<Rightarrow> List.find isDartSeat seats)"

text \<open>
  The block that builds \<^verbatim>\<open>dartVacancy\<close> from a structured payload. It stands twice in the
  source with the same text: in \<^verbatim>\<open>fetchVacancyFromAPI\<close> (lines 57 to 78) and, for a
  payload captured during a page load, in \<^verbatim>\<open>scrapeVacancy\<close> (lines 240 to 263).
\<close>

definition dartVacancyOfPayload :: "payload \<Rightarrow> dartVacancy" where
  "dartVacancyOfPayload data =
     (case findDartInfo data of
        Some dartInfo \<Rightarrow>
          (let available = parseSeatStatus (seat_status dartInfo);
               statusNo = parseIntAny (status_no dartInfo)
           in \<lparr>dv_available = available,
               dv_total = positiveOrZero available,
               dv_status = mapStatusNo statusNo\<rparr>)
      | None \<Rightarrow> \<lparr>dv_available = Num 0, dv_total = Num 0, dv_status = Unknown\<rparr>)"

section \<open>The normalizer of the rendered document\<close>

text \<open>
  \<^verbatim>\<open>ratio < 0.3\<close> for the double quotient of two integers \<open>a\<close> and \<open>t\<close>, neither of
  them 0. The double \<^verbatim>\<open>0.3\<close> is \<open>5404319552844595 / 2 ^ 54\<close>; the double before it
  has an even last digit, so the quotient is rounded below \<^verbatim>\<open>0.3\<close> exactly when it is
  at most the midpoint of the two, \<open>10808639105689189 / 2 ^ 55\<close>.
\<close>

definition ratioBelowPoint3 :: "int \<Rightarrow> int \<Rightarrow> bool" where
  "ratioBelowPoint3 a t \<longleftrightarrow> (of_int a / of_int t :: rat) \<le> 10808639105689189 / 2 ^ 55"

text \<open>
  \<^verbatim>\<open>determineStatus\<close>, on doubles. A quotient with \<open>NaN\<close>, or of two infinities, is
  \<open>NaN\<close>, for which both comparisons are false; a finite number over an infinity is a
  zero; an infinity over a finite number is an infinity with the sign of the quotient.
  The quotient of two integers that are doubles is a zero only when the numerator is: its
  size is above \<open>1 / 2 ^ 1024\<close>, far from the smallest double.
\<close>

fun determineStatus :: "jsnum \<Rightarrow> jsnum \<Rightarrow> vacancy_status" where
  "determineStatus available (Num t) =
     (if t = 0 then Unknown
      else case available of
             Num a \<Rightarrow>
               (if a = 0 then Full
                else if ratioBelowPoint3 a t then Crowded
                else Vacant)
           | NaN \<Rightarrow> Vacant
           | PosInf \<Rightarrow> (if t < 0 then Crowded else Vacant)
           | NegInf \<Rightarrow> (if t < 0 then Vacant else Crowded))"
| "determineStatus available NaN = Vacant"
| "determineStatus (Num a) PosInf = Full"
| "determineStatus (Num a) NegInf = Full"
| "determineStatus available tot = Vacant"

text \<open>
  A parsed document, as far as the parsers look at it: for a CSS selector, the text of
  each element it selects, in document order. \<^verbatim>\<open>$(selector).text()\<close> is the
  concatenation of these texts, \<^verbatim>\<open>$(selector).length\<close> their number.
\<close>

type_synonym document = "string \<Rightarrow> jsstring list"

text \<open>\<^verbatim>\<open>/(\d+)[\s]*[\<close>U+53F0\<^verbatim>\<open>]/\<close>\<close>

definition availableRegex :: "rx list" where
  "availableRegex = [Capture Digit Plus, Atom Space Star, Atom (Chr 0x53F0) One]"

text \<open>\<^verbatim>\<open>/\/[\s]*(\d+)[\s]*\<close>U+53F0\<^verbatim>\<open>/\<close>\<close>

definition totalSlashRegex :: "rx list" where
  "totalSlashRegex =
     [Atom (Chr 0x2F) One, Atom Space Star, Capture Digit Plus, Atom Space Star,
      Atom (Chr 0x53F0) One]"

text \<open>\<^verbatim>\<open>/\<close>U+5168\<^verbatim>\<open>(\d+)[\s]*\<close>U+53F0\<^verbatim>\<open>/\<close>\<close>

definition totalAllRegex :: "rx list" where
  "totalAllRegex =
     [Atom (Chr 0x5168) One, Capture Digit Plus, Atom Space Star, Atom (Chr 0x53F0) One]"

definition dartSelectors :: "string list" where
  "dartSelectors =
     [''.dart-vacancy'',
      ''[data-type='' @ [CHR 0x22] @ ''dart'' @ [CHR 0x22] @ '']'',
      ''.vacancy-dart'',
      ''#dartVacancy'']"

text \<open>\<^verbatim>\<open>s.includes(t)\<close>\<close>

fun js_includes :: "jsstring \<Rightarrow> jsstring \<Rightarrow> bool" where
  "js_includes [] t = (t = [])"
| "js_includes (c # s) t = (take (length t) (c # s) = t \<or> js_includes s t)"

text \<open>The first loop of \<^verbatim>\<open>extractDartVacancy\<close>, over the selector candidates.\<close>

fun trySelectors :: "document \<Rightarrow> string list \<Rightarrow> dartVacancy option" where
  "trySelectors doc [] = None"
| "trySelectors doc (selector # rest) =
     (let element = doc selector
      in if length element > 0 then
           (let text = concat element;
                availableMatch = regexMatch availableRegex text;
                totalMatch = (case regexMatch totalSlashRegex text of
                                Some g \<Rightarrow> Some g
                              | None \<Rightarrow> regexMatch totalAllRegex text)
            in case availableMatch of
                 Some a \<Rightarrow>
                   (let available = parseInt a;
                        total = (case totalMatch of Some t \<Rightarrow> parseInt t | None \<Rightarrow> available)
                    in Some \<lparr>dv_available = available, dv_total = total,
                             dv_status = determineStatus available total\<rparr>)
               | None \<Rightarrow> trySelectors doc rest)
         else trySelectors doc rest)"

text \<open>The second loop, over the table rows and list items.\<close>

fun scanRows :: "jsstring list \<Rightarrow> dartVacancy option" where
  "scanRows [] = None"
| "scanRows (rowText # rows) =
     (if js_includes rowText [0x30C0, 0x30FC, 0x30C4] \<or> js_includes rowText (ascii ''DARTS'') then
        (case regexMatch availableRegex rowText of
           Some a \<Rightarrow>
             (let available = parseInt a
              in Some \<lparr>dv_available = available, dv_total = available,
                       dv_status = determineStatus available available\<rparr>)
         | None \<Rightarrow> scanRows rows)
      else scanRows rows)"

definition extractDartVacancy :: "document \<Rightarrow> dartVacancy" where
  "extractDartVacancy doc =
     (case trySelectors doc dartSelectors of
        Some v \<Rightarrow> v
      | None \<Rightarrow>
          (case scanRows (doc ''tr, li'') of
             Some v \<Rightarrow> v
           | None \<Rightarrow> \<lparr>dv_available = Num 0, dv_total = Num 0, dv_status = Unknown\<rparr>))"


section \<open>Channels and the retry loop\<close>

text \<open>
  A thrown \<^verbatim>\<open>Error\<close>, by its message; \<open>ApiStatusError n\<close> is the error of
  \<^verbatim>\<open>fetchVacancyFromAPI\<close> for a payload whose top-level \<^verbatim>\<open>status\<close> is \<open>n\<close>.
\<close>

datatype error = Error string | ApiStatusError int

text \<open>
  The part of \<^verbatim>\<open>VacancyData\<close> the normalizers compute; the store name and the two time
  stamps are left out.
\<close>

record VacancyData =
  vd_storeCode :: string
  vd_dartVacancy :: dartVacancy

text \<open>
  What lies outside the process. \<open>apiResponse up code\<close> is the outcome of the
  \<^verbatim>\<open>axios.get\<close> of the structured endpoint for a store. \<open>pageLoad up code n\<close> is the
  outcome of the browser part of the call to \<^verbatim>\<open>scrapeVacancy\<close> made by attempt \<open>n\<close> of
  a retry loop: an error of the browser or the navigation, or the first captured response
  whose URL contains \<^verbatim>\<open>empty_seat\<close> (if any) together with the document.
\<close>

record upstream =
  apiResponse :: "string \<Rightarrow> error + payload"
  pageLoad :: "string \<Rightarrow> nat \<Rightarrow> error + (payload option \<times> document)"

definition fetchVacancyFromAPI :: "upstream \<Rightarrow> string \<Rightarrow> error + VacancyData" where
  "fetchVacancyFromAPI up storeCode =
     (case apiResponse up storeCode of
        Inl e \<Rightarrow> Inl e
      | Inr data \<Rightarrow>
          if api_status data \<noteq> 0 then Inl (ApiStatusError (api_status data))
          else Inr \<lparr>vd_storeCode = storeCode, vd_dartVacancy = dartVacancyOfPayload data\<rparr>)"

definition scrapeVacancy :: "upstream \<Rightarrow> string \<Rightarrow> nat \<Rightarrow> error + VacancyData" where
  "scrapeVacancy up storeCode n =
     (case pageLoad up storeCode n of
        Inl e \<Rightarrow> Inl e
      | Inr (captured, doc) \<Rightarrow>
          (case captured of
             Some data \<Rightarrow>
               Inr \<lparr>vd_storeCode = storeCode, vd_dartVacancy = dartVacancyOfPayload data\<rparr>
           | None \<Rightarrow>
               Inr \<lparr>vd_storeCode = storeCode, vd_dartVacancy = extractDartVacancy doc\<rparr>))"

text \<open>What a handler does to the outside, in order. A sleep is in milliseconds.\<close>

datatype event =
  ApiCall string
| ScrapeCall string nat
| Sleep nat
| CacheGet string
| CacheSet string




text \<open>
  The \<^verbatim>\<open>for\<close> loop of \<^verbatim>\<open>scrapeWithRetry\<close>, from the value of \<^verbatim>\<open>attempt\<close> and of
  \<^verbatim>\<open>lastError\<close>; the result comes with the calls and sleeps made.
\<close>

function retryLoop ::
  "upstream \<Rightarrow> string \<Rightarrow> int \<Rightarrow> nat \<Rightarrow> error option \<Rightarrow> (error + VacancyData) \<times> event list"
where
  "retryLoop up storeCode maxRetries attempt lastError =
     (if int attempt \<le> maxRetries then
        (case scrapeVacancy up storeCode attempt of
           Inr data \<Rightarrow> (Inr data, [ScrapeCall storeCode attempt])
         | Inl e \<Rightarrow>
             (let sleeps = (if int attempt < maxRetries then [Sleep (2 ^ attempt * 1000)] else []);
                  (r, evs) = retryLoop up storeCode maxRetries (attempt + 1) (Some e)
              in (r, ScrapeCall storeCode attempt # sleeps @ evs)))
      else
        (Inl (case lastError of
                Some e \<Rightarrow> e
              | None \<Rightarrow> Error ''Failed to fetch vacancy data after all retries''),
         []))"
  by pat_completeness auto
termination
  by (relation "measure (\<lambda>(up, storeCode, maxRetries, attempt, lastError).
                  nat (maxRetries + 1 - int attempt))") auto

declare retryLoop.simps [simp del]

definition scrapeWithRetry ::
  "upstream \<Rightarrow> string \<Rightarrow> int \<Rightarrow> (error + VacancyData) \<times> event list" where
  "scrapeWithRetry up storeCode maxRetries = retryLoop up storeCode maxRetries 1 None"

fun sleepTotal :: "event list \<Rightarrow> nat" where
  "sleepTotal [] = 0"
| "sleepTotal (Sleep d # evs) = d + sleepTotal evs"
| "sleepTotal (e # evs) = sleepTotal evs"


text \<open>
  The events of the attempts \<open>a\<close> up to \<open>k - 1\<close> of a retry loop when each of them
  fails and is followed by its sleep of \<open>2 ^ i\<close> seconds.
\<close>

definition failedAttempts :: "string \<Rightarrow> nat \<Rightarrow> nat \<Rightarrow> event list" where
  "failedAttempts storeCode a k =
     concat (map (\<lambda>i. [ScrapeCall storeCode i, Sleep (2 ^ i * 1000)]) [a..<k])"

section \<open>The cache\<close>

text \<open>
  Modelled from the spec: the store of the \<^verbatim>\<open>node-cache\<close> package (class
  \<^verbatim>\<open>NodeCache\<close>), which \<^verbatim>\<open>CacheService\<close> wraps and which is not under the sources.
  An entry holds its value and the instant, in milliseconds, at which its time to live
  ends (insertion time plus \<^verbatim>\<open>stdTTL\<close> seconds).
\<close>

record cacheEntry =
  ce_value :: VacancyData
  ce_expires :: int

text \<open>
  Modelled from the spec: the state of the store, its configured \<^verbatim>\<open>stdTTL\<close> in seconds
  and its entries by key, in insertion order.
\<close>

record cacheService =
  cs_ttl :: int
  cs_data :: "(string \<times> cacheEntry) list"

text \<open>
  Modelled from the spec: an overwrite replaces the entry of the key wholesale, a new key
  is added at the end.
\<close>

fun putEntry :: "string \<Rightarrow> cacheEntry \<Rightarrow> (string \<times> cacheEntry) list \<Rightarrow> (string \<times> cacheEntry) list"
where
  "putEntry k e [] = [(k, e)]"
| "putEntry k e ((k', e') # rest) =
     (if k' = k then (k, e) # rest else (k', e') # putEntry k e rest)"

text \<open>
  Modelled from the spec: \<^verbatim>\<open>set\<close> inserts or overwrites and restarts the countdown at the
  configured TTL.
\<close>

definition nc_set :: "int \<Rightarrow> string \<Rightarrow> VacancyData \<Rightarrow> cacheService \<Rightarrow> cacheService" where
  "nc_set now key v c =
     c\<lparr>cs_data := putEntry key \<lparr>ce_value = v, ce_expires = now + cs_ttl c * 1000\<rparr> (cs_data c)\<rparr>"

text \<open>
  Modelled from the spec: an entry is invisible to every read once insertion time plus TTL
  has elapsed, whether or not the sweep has removed it.
\<close>

definition nc_live :: "int \<Rightarrow> cacheEntry \<Rightarrow> bool" where
  "nc_live now e \<longleftrightarrow> now < ce_expires e"

text \<open>Modelled from the spec: the entry of a key, when present and unexpired.\<close>

definition nc_lookup :: "int \<Rightarrow> string \<Rightarrow> cacheService \<Rightarrow> cacheEntry option" where
  "nc_lookup now key c =
     (case map_of (cs_data c) key of
        Some e \<Rightarrow> if nc_live now e then Some e else None
      | None \<Rightarrow> None)"

text \<open>Modelled from the spec: \<^verbatim>\<open>get\<close> gives the value if present and unexpired.\<close>

definition nc_get :: "int \<Rightarrow> string \<Rightarrow> cacheService \<Rightarrow> VacancyData option" where
  "nc_get now key c = map_option ce_value (nc_lookup now key c)"

text \<open>Modelled from the spec: \<^verbatim>\<open>has\<close>, the presence of an unexpired entry.\<close>

definition nc_has :: "int \<Rightarrow> string \<Rightarrow> cacheService \<Rightarrow> bool" where
  "nc_has now key c \<longleftrightarrow> nc_lookup now key c \<noteq> None"

text \<open>
  Modelled from the spec: \<^verbatim>\<open>getTtl\<close>, from which the age is computed as a remaining
  time: the instant at which the entry expires, in the milliseconds of \<^verbatim>\<open>Date.now()\<close>,
  for an unexpired entry.
\<close>

definition nc_getTtl :: "int \<Rightarrow> string \<Rightarrow> cacheService \<Rightarrow> int option" where
  "nc_getTtl now key c = map_option ce_expires (nc_lookup now key c)"

text \<open>
  \<^verbatim>\<open>CacheService\<close>, with the clock reading \<open>now\<close> (milliseconds) of the call as a
  parameter. \<open>cs_ttl\<close> is both \<^verbatim>\<open>this.ttl\<close> and the \<^verbatim>\<open>stdTTL\<close> given to the store.
\<close>

definition cache_set :: "int \<Rightarrow> string \<Rightarrow> VacancyData \<Rightarrow> cacheService \<Rightarrow> bool \<times> cacheService" where
  "cache_set now key v c = (True, nc_set now key v c)"

definition cache_get :: "int \<Rightarrow> string \<Rightarrow> cacheService \<Rightarrow> VacancyData option" where
  "cache_get now key c = nc_get now key c"

definition cache_has :: "int \<Rightarrow> string \<Rightarrow> cacheService \<Rightarrow> bool" where
  "cache_has now key c = nc_has now key c"

text \<open>
  \<^verbatim>\<open>getCacheAge\<close>: \<^verbatim>\<open>if (ttl)\<close> is false for \<^verbatim>\<open>undefined\<close> and for \<open>0\<close>;
  \<^verbatim>\<open>Math.floor\<close> of the quotient is \<open>div\<close> on integers.
\<close>

definition getCacheAge :: "int \<Rightarrow> string \<Rightarrow> cacheService \<Rightarrow> int option" where
  "getCacheAge now key c =
     (case nc_getTtl now key c of
        Some ttl \<Rightarrow> if ttl \<noteq> 0 then Some (cs_ttl c - (ttl - now) div 1000) else None
      | None \<Rightarrow> None)"


section \<open>The request handler\<close>

text \<open>
  The process state a handler works on: the cache, the clock (milliseconds) and the
  record of what was done. The clock moves by the sleeps of a retry loop; the time a
  network call takes is not modelled.
\<close>

record world =
  w_cache :: cacheService
  w_now :: int
  w_log :: "event list"

text \<open>A query parameter as Express parses it: absent, one string, or repeated.\<close>

datatype query_value = QAbsent | QString string | QArray "string list"

record request =
  param_storeCode :: string
  query_noCache :: query_value

text \<open>
  The JSON answers of \<^verbatim>\<open>getVacancy\<close>: status 400, a success with the data, the
  \<^verbatim>\<open>cached\<close> flag and the cache age, and status 500 with the error.
\<close>

datatype response =
  InvalidStoreCode
| Success VacancyData bool "int option"
| ScrapingError error

text \<open>\<^verbatim>\<open>!storeCode || !/^\d{5}$/.test(storeCode)\<close> is the negation of this.\<close>

definition validStoreCode :: "string \<Rightarrow> bool" where
  "validStoreCode storeCode \<longleftrightarrow>
     length storeCode = 5 \<and> list_all (\<lambda>c. c \<in> set ''0123456789'') storeCode"

definition cacheKeyOf :: "string \<Rightarrow> string" where
  "cacheKeyOf storeCode = ''vacancy:'' @ storeCode"

text \<open>
  The acquisition of \<^verbatim>\<open>getVacancy\<close> (lines 62 to 74): the structured endpoint, then
  on its failure the retry loop with three attempts, then the write to the cache; an error
  of the retry loop leaves the handler before the write.
\<close>

definition fetchFresh :: "upstream \<Rightarrow> string \<Rightarrow> world \<Rightarrow> response \<times> world" where
  "fetchFresh up storeCode w =
     (let w1 = w\<lparr>w_log := w_log w @ [ApiCall storeCode]\<rparr>;
          (r, w2) =
            (case fetchVacancyFromAPI up storeCode of
               Inr data \<Rightarrow> (Inr data, w1)
             | Inl apiError \<Rightarrow>
                 (let (r, evs) = scrapeWithRetry up storeCode 3
                  in (r, w1\<lparr>w_log := w_log w1 @ evs,
                            w_now := w_now w1 + int (sleepTotal evs)\<rparr>)))
      in case r of
           Inr vacancyData \<Rightarrow>
             (let (ok, c) = cache_set (w_now w2) (cacheKeyOf storeCode) vacancyData (w_cache w2)
              in (Success vacancyData False None,
                  w2\<lparr>w_cache := c, w_log := w_log w2 @ [CacheSet (cacheKeyOf storeCode)]\<rparr>))
         | Inl e \<Rightarrow> (ScrapingError e, w2))"

definition getVacancy :: "upstream \<Rightarrow> request \<Rightarrow> world \<Rightarrow> response \<times> world" where
  "getVacancy up req w =
     (let storeCode = param_storeCode req
      in if \<not> validStoreCode storeCode then (InvalidStoreCode, w)
         else
           (let cacheKey = cacheKeyOf storeCode;
                noCache = (query_noCache req = QString ''true'')
            in if \<not> noCache then
                 (let w1 = w\<lparr>w_log := w_log w @ [CacheGet cacheKey]\<rparr>
                  in case cache_get (w_now w) cacheKey (w_cache w) of
                       Some cachedData \<Rightarrow>
                         (Success cachedData True (getCacheAge (w_now w) cacheKey (w_cache w)), w1)
                     | None \<Rightarrow> fetchFresh up storeCode w1)
               else fetchFresh up storeCode w))"

section \<open>The scheduler\<close>








subsection \<open>The next trigger\<close>

text \<open>
  A \<^verbatim>\<open>Date\<close> is its time value, the milliseconds since the epoch in UTC. The local
  fields depend on the time zone of the host, which is given by two conversions: the local
  time of an instant, and the instant of a local time (for a local time that a transition
  repeats, the earlier instant).
\<close>

type_synonym date = int

record zone =
  localOf :: "int \<Rightarrow> int"
  utcOf :: "int \<Rightarrow> int"

text \<open>A zone that is always \<open>c\<close> milliseconds ahead of UTC.\<close>

definition fixedZone :: "int \<Rightarrow> zone" where
  "fixedZone c = \<lparr>localOf = (\<lambda>t. t + c), utcOf = (\<lambda>l. l - c)\<rparr>"

text \<open>The fields of a time value, and the time value of a day number and fields.\<close>

definition hourFromTime :: "int \<Rightarrow> int" where
  "hourFromTime t = (t div 3600000) mod 24"

definition minFromTime :: "int \<Rightarrow> int" where
  "minFromTime t = (t div 60000) mod 60"

definition secFromTime :: "int \<Rightarrow> int" where
  "secFromTime t = (t div 1000) mod 60"

definition msFromTime :: "int \<Rightarrow> int" where
  "msFromTime t = t mod 1000"

definition makeDate :: "int \<Rightarrow> int \<Rightarrow> int \<Rightarrow> int \<Rightarrow> int \<Rightarrow> int" where
  "makeDate day h m s ms = day * 86400000 + h * 3600000 + m * 60000 + s * 1000 + ms"

text \<open>
  The getters read a field of the local time. A setter rebuilds the local time from its
  day and fields, so that a field beyond its range carries into the next one, and
  converts it back to an instant.
\<close>

definition getHours :: "zone \<Rightarrow> date \<Rightarrow> int" where
  "getHours z d = hourFromTime (localOf z d)"

definition getMinutes :: "zone \<Rightarrow> date \<Rightarrow> int" where
  "getMinutes z d = minFromTime (localOf z d)"

definition getSeconds :: "zone \<Rightarrow> date \<Rightarrow> int" where
  "getSeconds z d = secFromTime (localOf z d)"

definition getMilliseconds :: "zone \<Rightarrow> date \<Rightarrow> int" where
  "getMilliseconds z d = msFromTime (localOf z d)"

definition setHours :: "zone \<Rightarrow> date \<Rightarrow> int \<Rightarrow> date" where
  "setHours z d h =
     (let t = localOf z d
      in utcOf z (makeDate (t div 86400000) h (minFromTime t) (secFromTime t) (msFromTime t)))"

definition setMinutes :: "zone \<Rightarrow> date \<Rightarrow> int \<Rightarrow> date" where
  "setMinutes z d m =
     (let t = localOf z d
      in utcOf z (makeDate (t div 86400000) (hourFromTime t) m (secFromTime t) (msFromTime t)))"

definition setSeconds :: "zone \<Rightarrow> date \<Rightarrow> int \<Rightarrow> date" where
  "setSeconds z d s =
     (let t = localOf z d
      in utcOf z (makeDate (t div 86400000) (hourFromTime t) (minFromTime t) s (msFromTime t)))"

definition setMilliseconds :: "zone \<Rightarrow> date \<Rightarrow> int \<Rightarrow> date" where
  "setMilliseconds z d ms =
     (let t = localOf z d
      in utcOf z (makeDate (t div 86400000) (hourFromTime t) (minFromTime t) (secFromTime t) ms))"

text \<open>
  \<^verbatim>\<open>getNextScheduledTime\<close>, with the zone of the host and the reading of the clock as
  its arguments.
\<close>

definition getNextScheduledTime :: "zone \<Rightarrow> date \<Rightarrow> date" where
  "getNextScheduledTime z now =
     (let currentMinute = getMinutes z now;
          currentSecond = getSeconds z now;
          currentSlot = currentMinute div 10;
          nextSlot = (if currentMinute mod 10 \<ge> 4 \<or> (currentMinute mod 10 = 4 \<and> currentSecond > 0)
                      then currentSlot + 1 else currentSlot);
          nextMinute = nextSlot * 10 + 4;
          next = now;
          next1 = (if nextMinute \<ge> 60
                   then setMinutes z (setHours z next (getHours z next + 1)) 4
                   else setMinutes z next nextMinute)
      in setMilliseconds z (setSeconds z next1 0) 0)"

text \<open>The instant at which the local clock shows a day number and a time of day.\<close>

definition atTime :: "zone \<Rightarrow> int \<Rightarrow> int \<Rightarrow> int \<Rightarrow> int \<Rightarrow> int \<Rightarrow> date" where
  "atTime z day h m s ms = utcOf z (makeDate day h m s ms)"

text \<open>The trigger instants: minute 4 of a ten-minute slot of the local clock, at second 0.\<close>

definition isTrigger :: "zone \<Rightarrow> date \<Rightarrow> bool" where
  "isTrigger z t \<longleftrightarrow>
     getMinutes z t mod 10 = 4 \<and> getSeconds z t = 0 \<and> getMilliseconds z t = 0"

subsection \<open>The timers\<close>

text \<open>
  The timers of the runtime that the scheduler created and that are still pending, each
  under its handle, and the scheduler's own list \<^verbatim>\<open>this.intervals\<close>. \<open>sc_rounds\<close>
  counts the calls of \<^verbatim>\<open>executeScraping\<close>.
\<close>

datatype timer = Timeout int | Interval int

record scheduler =
  sc_intervals :: "nat list"
  sc_timers :: "(nat \<times> timer) list"
  sc_next :: nat
  sc_rounds :: nat

definition newScheduler :: scheduler where
  "newScheduler = \<lparr>sc_intervals = [], sc_timers = [], sc_next = 0, sc_rounds = 0\<rparr>"

text \<open>
  \<^verbatim>\<open>start\<close>: one round at once, then \<^verbatim>\<open>setTimeout\<close> with the delay to the next
  trigger. The handle that \<^verbatim>\<open>setTimeout\<close> returns is dropped.
\<close>

definition start :: "zone \<Rightarrow> date \<Rightarrow> scheduler \<Rightarrow> scheduler" where
  "start z now sc =
     (let sc1 = sc\<lparr>sc_rounds := sc_rounds sc + 1\<rparr>;
          nextScheduledTime = getNextScheduledTime z now;
          delay = nextScheduledTime - now
      in sc1\<lparr>sc_timers := sc_timers sc1 @ [(sc_next sc1, Timeout delay)],
             sc_next := sc_next sc1 + 1\<rparr>)"

text \<open>
  The runtime fires the pending timer with handle \<open>h\<close>; a handle that is not pending
  fires nothing. The callback of the timeout runs a round, creates the repeating timer and
  pushes its handle; the callback of the repeating timer runs a round.
\<close>

definition fire :: "nat \<Rightarrow> scheduler \<Rightarrow> scheduler" where
  "fire h sc =
     (case map_of (sc_timers sc) h of
        None \<Rightarrow> sc
      | Some (Timeout d) \<Rightarrow>
          (let sc1 = sc\<lparr>sc_timers := filter (\<lambda>(h', t). h' \<noteq> h) (sc_timers sc),
                         sc_rounds := sc_rounds sc + 1\<rparr>;
               interval = sc_next sc1
           in sc1\<lparr>sc_timers := sc_timers sc1 @ [(interval, Interval (10 * 60 * 1000))],
                  sc_next := interval + 1,
                  sc_intervals := sc_intervals sc1 @ [interval]\<rparr>)
      | Some (Interval p) \<Rightarrow> sc\<lparr>sc_rounds := sc_rounds sc + 1\<rparr>)"

text \<open>\<^verbatim>\<open>stop\<close>: \<^verbatim>\<open>clearInterval\<close> on every stored handle, then the list is emptied.\<close>

definition stop :: "scheduler \<Rightarrow> scheduler" where
  "stop sc =
     sc\<lparr>sc_timers := filter (\<lambda>(h, t). h \<notin> set (sc_intervals sc)) (sc_timers sc),
        sc_intervals := []\<rparr>"


section \<open>Concrete inputs\<close>

text \<open>Japan Standard Time: nine hours ahead of UTC, without daylight saving.\<close>

definition jst :: zone where
  "jst = fixedZone 32400000"

text \<open>
  The zone of London around 27 October 2024: one hour ahead of UTC until 01:00 UTC of that
  day (the instant 1729990800000), on UTC from then. A local time before 02:00 of that day
  is read with the offset of the summer, which for the repeated hour is the earlier
  instant.
\<close>

definition londonAutumn2024 :: zone where
  "londonAutumn2024 =
     \<lparr>localOf = (\<lambda>t. if t < 1729990800000 then t + 3600000 else t),
      utcOf = (\<lambda>l. if l < 1729990800000 + 3600000 then l - 3600000 else l)\<rparr>"

text \<open>A darts entry with the given status text and status code.\<close>

definition dartsSeat :: "jsstring \<Rightarrow> jsstring option \<Rightarrow> seat" where
  "dartsSeat st no =
     \<lparr>seat_name = [0x30C0, 0x30FC, 0x30C4], category_id = ascii ''10'',
      seat_status = st, status_no = no\<rparr>"

text \<open>The payload of a store whose darts are full: the full marker with status code 4.\<close>

definition payloadFull :: payload where
  "payloadFull = \<lparr>api_status = 0, seat_type = Some [dartsSeat [0x6E80, 0x5E2D] (Some (ascii ''4''))]\<rparr>"

text \<open>Three seats left (U+6B8B 3 U+5E2D) with status code 1, and without a status code.\<close>

definition payloadThree :: payload where
  "payloadThree = \<lparr>api_status = 0, seat_type = Some [dartsSeat [0x6B8B, 51, 0x5E2D] (Some (ascii ''1''))]\<rparr>"

definition payloadNoCode :: payload where
  "payloadNoCode = \<lparr>api_status = 0, seat_type = Some [dartsSeat [0x6B8B, 51, 0x5E2D] None]\<rparr>"

text \<open>The prefix U+6B8B, the digits of 9007199254740993 and the seat counter.\<close>

definition textBigCount :: jsstring where
  "textBigCount = [0x6B8B] @ ascii ''9007199254740993'' @ [0x5E2D]"

definition emptyDoc :: document where
  "emptyDoc = (\<lambda>selector. [])"

text \<open>A document whose only availability element has the given text.\<close>

definition docWith :: "jsstring \<Rightarrow> document" where
  "docWith t = (\<lambda>selector. if selector = ''.dart-vacancy'' then [t] else [])"

text \<open>The text "3 / 8" followed by the unit counter U+53F0.\<close>

definition textThreeOfEight :: jsstring where
  "textThreeOfEight = [51, 32, 47, 32, 56, 0x53F0]"

text \<open>
  Upstreams: one whose endpoint and page both answer, one whose endpoint reports a full
  store, one whose endpoint refuses and whose page loads at the third attempt only, and one
  that is down.
\<close>

definition upOk :: upstream where
  "upOk = \<lparr>apiResponse = (\<lambda>c. Inr payloadThree), pageLoad = (\<lambda>c n. Inr (Some payloadThree, emptyDoc))\<rparr>"

definition upFull :: upstream where
  "upFull = \<lparr>apiResponse = (\<lambda>c. Inr payloadFull), pageLoad = (\<lambda>c n. Inr (None, emptyDoc))\<rparr>"

definition upFlaky :: upstream where
  "upFlaky =
     \<lparr>apiResponse = (\<lambda>c. Inl (Error ''403'')),
      pageLoad = (\<lambda>c n. if n < 3 then Inl (Error ''timeout'') else Inr (None, docWith [51, 0x53F0]))\<rparr>"

definition upDown :: upstream where
  "upDown = \<lparr>apiResponse = (\<lambda>c. Inl (Error ''403'')), pageLoad = (\<lambda>c n. Inl (Error ''timeout''))\<rparr>"

definition world0 :: world where
  "world0 = \<lparr>w_cache = \<lparr>cs_ttl = 900, cs_data = []\<rparr>, w_now = 0, w_log = []\<rparr>"

definition vacancyThree :: VacancyData where
  "vacancyThree =
     \<lparr>vd_storeCode = ''20333'',
      vd_dartVacancy = \<lparr>dv_available = Num 3, dv_total = Num 3, dv_status = Vacant\<rparr>\<rparr>"

definition vacancyFull :: VacancyData where
  "vacancyFull =
     \<lparr>vd_storeCode = ''20333'',
      vd_dartVacancy = \<lparr>dv_available = Num 0, dv_total = Num 0, dv_status = Full\<rparr>\<rparr>"

text \<open>
  A world whose cache holds a live entry for store 20333, a request for that store without
  a query, and one with \<^verbatim>\<open>noCache=true\<close>.
\<close>

definition worldCached :: world where
  "worldCached =
     \<lparr>w_cache = \<lparr>cs_ttl = 900,
                 cs_data = [(''vacancy:20333'',
                             \<lparr>ce_value = vacancyThree, ce_expires = 900000\<rparr>)]\<rparr>,
      w_now = 0, w_log = []\<rparr>"

definition reqPlain :: request where
  "reqPlain = \<lparr>param_storeCode = ''20333'', query_noCache = QAbsent\<rparr>"

definition reqNoCache :: request where
  "reqNoCache = \<lparr>param_storeCode = ''20333'', query_noCache = QString ''true''\<rparr>"

section \<open>Properties\<close>

subsection \<open>Numbers\<close>

lemma toDouble_small: "\<bar>n\<bar> < 2 ^ 53 \<Longrightarrow> toDouble n = Num n"
proof -
  assume "\<bar>n\<bar> < 2 ^ 53"
  then have "nat \<bar>n\<bar> < 2 ^ 53" by (simp add: nat_less_iff)
  then show ?thesis by (simp add: toDouble_def)
qed

lemma toDouble_nonneg: "0 \<le> n \<Longrightarrow> toDouble n = PosInf \<or> (\<exists>m\<ge>0. toDouble n = Num m)"
  by (auto simp: toDouble_def Let_def)

lemma bitLength_numeral:
  "bitLength 0 = 0"
  "bitLength (numeral k) = Suc (bitLength (numeral k div 2))"
  by (subst bitLength.simps, simp)+

lemma bitLength_one: "bitLength (Suc 0) = Suc 0"
  by (subst bitLength.simps) (simp add: bitLength_numeral(1))

lemmas num_simps = toDouble_small ratioBelowPoint3_def

lemma determineStatus_examples:
  "determineStatus (Num 0) (Num 8) = Full \<and>
   determineStatus (Num 2) (Num 8) = Crowded \<and>
   determineStatus (Num 3) (Num 10) = Vacant \<and>
   determineStatus (Num 5) (Num 8) = Vacant \<and>
   determineStatus (Num 5) (Num 0) = Unknown \<and>
   determineStatus (Num 900000000000002) (Num 3000000000000007) = Vacant \<and>
   determineStatus (Num 900000000000002) (Num 3000000000000008) = Crowded"
  by (simp add: ratioBelowPoint3_def)


subsection \<open>The regular expressions\<close>

lemma firstSome_None: "(\<And>x. x \<in> set xs \<Longrightarrow> f x = None) \<Longrightarrow> firstSome f xs = None"
  by (induction xs) auto

lemma firstSome_head:
  "(\<And>x. x \<in> set xs \<Longrightarrow> f x = None) \<Longrightarrow> firstSome f (x # xs) = f x"
  by (cases "f x") (auto simp: firstSome_None)

lemma rev_upt_1_Suc: "1 \<le> n \<Longrightarrow> rev [1..<Suc n] = n # rev [1..<n]"
  by simp

lemma drop_takeWhile_inside:
  assumes "k < length (takeWhile P s)"
  shows "\<exists>c r. drop k s = c # r \<and> P c"
proof -
  let ?d = "takeWhile P s"
  have s: "s = ?d @ dropWhile P s" by simp
  have "drop k s = drop k ?d @ dropWhile P s"
    using assms by (metis s drop_append diff_is_0_eq drop0 less_imp_le)
  moreover from assms obtain c r where d: "drop k ?d = c # r"
    by (cases "drop k ?d") auto
  moreover have "c \<in> set ?d" using d by (metis in_set_dropD list.set_intros(1))
  then have "P c" by (meson set_takeWhileD)
  ultimately show ?thesis by auto
qed

lemma matchHere_lit:
  "matchHere [Atom (Chr t) One] s = (case s of [] \<Rightarrow> None | c # r \<Rightarrow> if c = t then Some [] else None)"
  by (cases s) auto

lemma case_case_lit:
  "(case (case xs of [] \<Rightarrow> None | c # r \<Rightarrow> if c = t then Some a else None) of
      None \<Rightarrow> None | Some g \<Rightarrow> Some b) =
   (case xs of [] \<Rightarrow> None | c # r \<Rightarrow> if c = t then Some b else None)"
  by (cases xs) auto

lemma matchHere_digits_lit:
  assumes "\<not> is_digit t"
  shows "matchHere [Capture Digit Plus, Atom (Chr t) One] s = digitRun t s"
proof -
  define n where "n = length (takeWhile is_digit s)"
  define f where "f = (\<lambda>k. case matchHere [Atom (Chr t) One] (drop k s) of
              None \<Rightarrow> None | Some g \<Rightarrow> Some (take k s))"
  have cd: "cls_test Digit = is_digit" by (rule ext) simp
  have lhs: "matchHere [Capture Digit Plus, Atom (Chr t) One] s = firstSome f (rev [1..<Suc n])"
    unfolding f_def n_def
    by (simp only: matchHere.simps(2) rx_quant.simps rx_cls.simps rx_captures.simps counts.simps cd if_True)
  show ?thesis
  proof (cases "n = 0")
    case True
    then have "takeWhile is_digit s = []" by (simp add: n_def)
    then show ?thesis unfolding lhs using True by (simp add: digitRun_def)
  next
    case False
    have small: "f k = None" if "k \<in> set (rev [1..<n])" for k
    proof -
      from that have "k < length (takeWhile is_digit s)" by (simp add: n_def)
      from drop_takeWhile_inside[OF this] obtain c r where "drop k s = c # r" "is_digit c" by auto
      then show ?thesis using assms by (auto simp: f_def matchHere_lit simp del: matchHere.simps)
    qed
    have "rev [1..<Suc n] = n # rev [1..<n]" using False by simp
    then have first: "firstSome f (rev [1..<Suc n]) = f n"
      using firstSome_head[of "rev [1..<n]" f n] small by simp
    have dr: "drop n s = dropWhile is_digit s" unfolding n_def
      by (metis append_eq_conv_conj takeWhile_dropWhile_id)
    have tk: "take n s = takeWhile is_digit s" unfolding n_def
      by (metis append_eq_conv_conj takeWhile_dropWhile_id)
    have ne: "takeWhile is_digit s \<noteq> []" using False by (simp add: n_def)
    have "f n = (case dropWhile is_digit s of [] \<Rightarrow> None
                 | c # r \<Rightarrow> if c = t then Some (takeWhile is_digit s) else None)"
      unfolding f_def matchHere_lit dr tk by (rule case_case_lit)
    also have "\<dots> = digitRun t s"
      by (cases "dropWhile is_digit s") (simp_all only: digitRun_def Let_def ne list.case simp_thms if_True if_False not_False_eq_True)
    finally show ?thesis unfolding lhs first .
  qed
qed

lemma digitRun_Some_iff:
  assumes "\<not> is_digit t"
  shows "digitRun t s = Some d \<longleftrightarrow> (\<exists>post. s = d @ t # post \<and> d \<noteq> [] \<and> (\<forall>c\<in>set d. is_digit c))"
proof
  assume h: "digitRun t s = Some d"
  then have d: "d = takeWhile is_digit s" "d \<noteq> []"
    by (auto simp: digitRun_def Let_def split: if_splits)
  from h obtain r where "dropWhile is_digit s = t # r"
    by (auto simp: digitRun_def Let_def split: if_splits list.splits)
  then have "s = d @ t # r" using d by (metis takeWhile_dropWhile_id)
  moreover have "\<forall>c\<in>set d. is_digit c" using d by (auto dest: set_takeWhileD)
  ultimately show "\<exists>post. s = d @ t # post \<and> d \<noteq> [] \<and> (\<forall>c\<in>set d. is_digit c)" using d by blast
next
  assume "\<exists>post. s = d @ t # post \<and> d \<noteq> [] \<and> (\<forall>c\<in>set d. is_digit c)"
  then obtain post where s: "s = d @ t # post" and d: "d \<noteq> []" "\<forall>c\<in>set d. is_digit c" by blast
  have "takeWhile is_digit s = d" using s d assms by (simp add: takeWhile_tail)
  moreover have "dropWhile is_digit s = t # post" using s d assms by (simp add: dropWhile_append3 dropWhile_append2)
  ultimately show "digitRun t s = Some d" using d by (simp add: digitRun_def)
qed

lemma matchHere_seatRegex:
  "matchHere seatRegex s =
     (case s of [] \<Rightarrow> None
      | c # r \<Rightarrow> if c = 0x6B8B then digitRun 0x5E2D r else digitRun 0x5E2D s)"
proof -
  have nd: "\<not> is_digit 0x5E2D" by (simp add: is_digit_def)
  have nd2: "\<not> is_digit 0x6B8B" by (simp add: is_digit_def)
  have m: "matchHere [Capture Digit Plus, Atom (Chr 0x5E2D) One] u = digitRun 0x5E2D u" for u
    by (rule matchHere_digits_lit[OF nd])
  have step: "matchHere seatRegex s =
    firstSome (\<lambda>k. case matchHere [Capture Digit Plus, Atom (Chr 0x5E2D) One] (drop k s) of
        None \<Rightarrow> None | Some g \<Rightarrow> Some g)
      (counts Opt (length (takeWhile (\<lambda>x. x = 0x6B8B) s)))"
    unfolding seatRegex_def
    apply (simp only: matchHere.simps(2)[of "Atom (Chr 0x6B8B) Opt"] rx_quant.simps rx_cls.simps rx_captures.simps if_False)
    apply (rule arg_cong2[where f=firstSome])
     apply (rule refl)
    apply (rule arg_cong[where f="counts Opt"])
    apply (rule arg_cong[where f=length])
    apply (rule arg_cong2[where f=takeWhile])
     apply (rule ext) apply simp
    apply (rule refl)
    done
  show ?thesis
  proof (cases s)
    case Nil
    then show ?thesis unfolding step m by (simp add: digitRun_def)
  next
    case (Cons c r)
    show ?thesis
    proof (cases "c = 0x6B8B")
      case True
      have "digitRun 0x5E2D s = None" using Cons True nd2 by (simp add: digitRun_def)
      then show ?thesis unfolding step m using Cons True
        by (auto split: option.splits)
    next
      case False
      then show ?thesis unfolding step m using Cons
        by (auto split: option.splits)
    qed
  qed
qed


lemma digitRun_seat_iff:
  "digitRun 0x5E2D s = Some d \<longleftrightarrow>
     (\<exists>post. s = d @ 0x5E2D # post \<and> d \<noteq> [] \<and> (\<forall>c\<in>set d. is_digit c))"
  by (rule digitRun_Some_iff) (simp add: is_digit_def)

lemma regexMatch_seat_first:
  assumes "ds \<noteq> []" and "\<forall>c\<in>set ds. is_digit c"
    and "\<forall>pre' ds' post'. ds' \<noteq> [] \<and> (\<forall>c\<in>set ds'. is_digit c) \<and>
            pre' @ ds' @ 0x5E2D # post' = pre @ ds @ 0x5E2D # post \<longrightarrow> length pre \<le> length pre'"
  shows "regexMatch seatRegex (pre @ ds @ 0x5E2D # post) = Some ds"
  using assms(3)
proof (induction pre)
  case Nil
  obtain c r where ds: "ds = c # r" using assms(1) by (cases ds) auto
  have c: "c \<noteq> 0x6B8B" using assms(2) ds by (auto simp: is_digit_def)
  have "digitRun 0x5E2D (ds @ 0x5E2D # post) = Some ds"
    using assms(1,2) by (auto simp: digitRun_seat_iff)
  then have "matchHere seatRegex (ds @ 0x5E2D # post) = Some ds"
    using ds c by (simp add: matchHere_seatRegex)
  then show ?case using ds by simp
next
  case (Cons a pre)
  let ?s = "pre @ ds @ 0x5E2D # post"
  have min: "length (a # pre) \<le> length pre'"
    if "ds' \<noteq> []" "\<forall>c\<in>set ds'. is_digit c" "pre' @ ds' @ 0x5E2D # post' = a # ?s" for pre' ds' post'
    using Cons.prems that by auto
  show ?case
  proof (cases "matchHere seatRegex (a # ?s)")
    case None
    have "regexMatch seatRegex ?s = Some ds"
    proof (rule Cons.IH, intro allI impI)
      fix pre' ds' post'
      assume h: "ds' \<noteq> [] \<and> (\<forall>c\<in>set ds'. is_digit c) \<and> pre' @ ds' @ 0x5E2D # post' = ?s"
      then have "(a # pre') @ ds' @ 0x5E2D # post' = a # ?s" by simp
      from min[OF _ _ this] h show "length pre \<le> length pre'" by simp
    qed
    then show ?thesis using None by simp
  next
    case (Some g)
    show ?thesis
    proof (cases "a = 0x6B8B")
      case True
      with Some have "digitRun 0x5E2D ?s = Some g" by (simp add: matchHere_seatRegex)
      then obtain post' where g: "?s = g @ 0x5E2D # post'" "g \<noteq> []" "\<forall>c\<in>set g. is_digit c"
        by (auto simp: digitRun_seat_iff)
      then have "[a] @ g @ 0x5E2D # post' = a # ?s" by simp
      from min[OF g(2,3) this] have pre: "pre = []" by simp
      have "takeWhile is_digit (g @ 0x5E2D # post') = g"
        using g by (simp add: takeWhile_tail is_digit_def)
      moreover have "takeWhile is_digit (ds @ 0x5E2D # post) = ds"
        using assms by (simp add: takeWhile_tail is_digit_def)
      ultimately have "g = ds" using g(1) pre by simp
      then show ?thesis using Some by simp
    next
      case False
      with Some have "digitRun 0x5E2D (a # ?s) = Some g" by (simp add: matchHere_seatRegex)
      then obtain post' where g: "a # ?s = g @ 0x5E2D # post'" "g \<noteq> []" "\<forall>c\<in>set g. is_digit c"
        by (auto simp: digitRun_seat_iff)
      then have "[] @ g @ 0x5E2D # post' = a # ?s" by simp
      from min[OF g(2,3) this] show ?thesis by simp
    qed
  qed
qed

lemma matchHere_seat_Some:
  assumes "matchHere seatRegex s = Some g"
  shows "\<exists>pre post. s = pre @ g @ 0x5E2D # post \<and> g \<noteq> [] \<and> (\<forall>c\<in>set g. is_digit c)"
proof (cases s)
  case Nil
  with assms show ?thesis by (simp add: matchHere_seatRegex)
next
  case (Cons c r)
  show ?thesis
  proof (cases "c = 0x6B8B")
    case True
    with assms Cons have "digitRun 0x5E2D r = Some g" by (simp add: matchHere_seatRegex)
    then obtain post where "r = g @ 0x5E2D # post" "g \<noteq> []" "\<forall>c\<in>set g. is_digit c"
      by (auto simp: digitRun_seat_iff)
    then have "s = [c] @ g @ 0x5E2D # post \<and> g \<noteq> [] \<and> (\<forall>c\<in>set g. is_digit c)"
      using Cons by simp
    then show ?thesis by blast
  next
    case False
    with assms Cons have "digitRun 0x5E2D s = Some g" by (simp add: matchHere_seatRegex)
    then obtain post where "s = g @ 0x5E2D # post" "g \<noteq> []" "\<forall>c\<in>set g. is_digit c"
      by (auto simp: digitRun_seat_iff)
    then have "s = [] @ g @ 0x5E2D # post \<and> g \<noteq> [] \<and> (\<forall>c\<in>set g. is_digit c)" by simp
    then show ?thesis by blast
  qed
qed

lemma regexMatch_seat_Some:
  "regexMatch seatRegex s = Some g \<Longrightarrow>
     \<exists>pre post. s = pre @ g @ 0x5E2D # post \<and> g \<noteq> [] \<and> (\<forall>c\<in>set g. is_digit c)"
proof (induction s)
  case Nil
  then show ?case using matchHere_seat_Some[of "[]" g] by simp
next
  case (Cons a s)
  show ?case
  proof (cases "matchHere seatRegex (a # s)")
    case None
    with Cons.prems have "regexMatch seatRegex s = Some g" by simp
    from Cons.IH[OF this] obtain pre post where
      "s = pre @ g @ 0x5E2D # post" "g \<noteq> []" "\<forall>c\<in>set g. is_digit c" by blast
    then have "a # s = (a # pre) @ g @ 0x5E2D # post \<and> g \<noteq> [] \<and> (\<forall>c\<in>set g. is_digit c)" by simp
    then show ?thesis by blast
  next
    case (Some h)
    with Cons.prems have "h = g" by simp
    with Some show ?thesis using matchHere_seat_Some by blast
  qed
qed

lemma digitsValue_nonneg: "0 \<le> acc \<Longrightarrow> \<forall>c\<in>set ds. is_digit c \<Longrightarrow> 0 \<le> digitsValue acc ds"
  by (induction ds arbitrary: acc) (auto simp: is_digit_def)

lemma parseInt_digits:
  assumes "ds \<noteq> []" "\<forall>c\<in>set ds. is_digit c"
  shows "parseInt ds = toDouble (digitsValue 0 ds)"
proof -
  obtain c r where ds: "ds = c # r" using assms(1) by (cases ds) auto
  have c: "is_digit c" using assms(2) ds by simp
  then have ns: "\<not> is_space c" "c \<noteq> 45" "c \<noteq> 43"
    by (auto simp: is_digit_def is_space_def)
  have tw: "takeWhile is_digit ds = ds" using assms(2) by simp
  have dw: "dropWhile is_space ds = ds" using ds ns by simp
  show ?thesis
    unfolding parseInt_def dw Let_def using ns tw assms(1) by (simp add: ds)
qed

text \<open>
  C7, as the code has it. \<^verbatim>\<open>parseSeatStatus\<close> maps the two full markers to 0. A text
  in which a run of digits followed by the seat counter U+5E2D occurs is mapped to the
  double for the number \<open>N\<close> written by the digits of the leftmost such occurrence,
  whether the prefix U+6B8B stands before them or not and whatever follows the counter:
  that is \<open>N\<close> itself whenever \<open>N\<close> is below \<open>2 ^ 53\<close>, so
  "U+6B8B 10 U+5E2D U+4EE5 U+4E0A" (10 or more) gives exactly 10. Every text without such
  an occurrence is mapped to 0.
\<close>

theorem parseSeatStatus_cases:
  "parseSeatStatus [0x6E80, 0x5E2D] = Num 0 \<and>
   parseSeatStatus [0xD7] = Num 0 \<and>
   parseSeatStatus [0x6B8B, 49, 48, 0x5E2D, 0x4EE5, 0x4E0A] = Num 10 \<and>
   (\<forall>pre ds post.
      ds \<noteq> [] \<and> list_all is_digit ds \<and>
      (\<forall>pre' ds' post'. ds' \<noteq> [] \<and> list_all is_digit ds' \<and>
          pre' @ ds' @ 0x5E2D # post' = pre @ ds @ 0x5E2D # post \<longrightarrow> length pre \<le> length pre')
      \<longrightarrow> parseSeatStatus (pre @ ds @ 0x5E2D # post) = toDouble (digitsValue 0 ds) \<and>
          (digitsValue 0 ds < 2 ^ 53 \<longrightarrow>
             parseSeatStatus (pre @ ds @ 0x5E2D # post) = Num (digitsValue 0 ds))) \<and>
   (\<forall>s. (\<forall>pre ds post. ds \<noteq> [] \<and> list_all is_digit ds \<longrightarrow> s \<noteq> pre @ ds @ 0x5E2D # post)
      \<longrightarrow> parseSeatStatus s = Num 0)"
proof (intro conjI allI impI)
  show "parseSeatStatus [0x6E80, 0x5E2D] = Num 0" by (simp add: parseSeatStatus_def)
  show "parseSeatStatus [0xD7] = Num 0" by (simp add: parseSeatStatus_def)
  show "parseSeatStatus [0x6B8B, 49, 48, 0x5E2D, 0x4EE5, 0x4E0A] = Num 10"
    by (simp add: parseSeatStatus_def seatRegex_def parseInt_def is_digit_def is_space_def
        toDouble_small)
next
  fix pre ds post
  assume h: "ds \<noteq> [] \<and> list_all is_digit ds \<and>
      (\<forall>pre' ds' post'. ds' \<noteq> [] \<and> list_all is_digit ds' \<and>
          pre' @ ds' @ 0x5E2D # post' = pre @ ds @ 0x5E2D # post \<longrightarrow> length pre \<le> length pre')"
  let ?s = "pre @ ds @ 0x5E2D # post"
  from h have ds: "ds \<noteq> []" "\<forall>c\<in>set ds. is_digit c" by (auto simp: list_all_iff)
  obtain c where c: "c \<in> set ?s" "is_digit c" using ds by (cases ds) auto
  have "?s \<noteq> [0x6E80, 0x5E2D]" "?s \<noteq> [0xD7]"
  proof -
    show "?s \<noteq> [0x6E80, 0x5E2D]"
    proof
      assume "?s = [0x6E80, 0x5E2D]"
      with c(1) have "c \<in> set [0x6E80, 0x5E2D]" by metis
      with c(2) show False by (simp add: is_digit_def)
    qed
    show "?s \<noteq> [0xD7]"
    proof
      assume "?s = [0xD7]"
      with c(1) have "c \<in> set [0xD7]" by metis
      with c(2) show False by (simp add: is_digit_def)
    qed
  qed
  moreover have "regexMatch seatRegex ?s = Some ds"
    using h by (intro regexMatch_seat_first ds) (simp add: list_all_iff)
  ultimately show r: "parseSeatStatus ?s = toDouble (digitsValue 0 ds)"
    by (simp add: parseSeatStatus_def parseInt_digits[OF ds])
  have "0 \<le> digitsValue 0 ds" using ds(2) by (intro digitsValue_nonneg) auto
  then show "parseSeatStatus ?s = Num (digitsValue 0 ds)" if "digitsValue 0 ds < 2 ^ 53"
    unfolding r using that by (intro toDouble_small) simp
next
  fix s
  assume h: "\<forall>pre ds post. ds \<noteq> [] \<and> list_all is_digit ds \<longrightarrow> s \<noteq> pre @ ds @ 0x5E2D # post"
  have "regexMatch seatRegex s = None"
  proof (cases "regexMatch seatRegex s")
    case (Some g)
    from regexMatch_seat_Some[OF this] h show ?thesis by (auto simp: list_all_iff)
  qed simp
  then show "parseSeatStatus s = Num 0" by (simp add: parseSeatStatus_def)
qed

theorem parseSeatStatus_cases_witness:
  "parseSeatStatus [0x6B8B, 51, 0x5E2D] = Num 3 \<and> parseSeatStatus (ascii ''abc'') = Num 0"
proof
  have min: "\<forall>pre' ds' post'. ds' \<noteq> [] \<and> list_all is_digit ds' \<and>
          pre' @ ds' @ 0x5E2D # post' = [0x6B8B] @ [51] @ 0x5E2D # [] \<longrightarrow> length [0x6B8B::nat] \<le> length pre'"
  proof (intro allI impI)
    fix pre' ds' :: jsstring and post' :: jsstring
    assume h: "ds' \<noteq> [] \<and> list_all is_digit ds' \<and>
          pre' @ ds' @ 0x5E2D # post' = [0x6B8B] @ [51] @ 0x5E2D # []"
    show "length [0x6B8B::nat] \<le> length pre'"
    proof (cases pre')
      case Nil
      with h obtain c r where "ds' = c # r" "is_digit c" by (cases ds') auto
      with h Nil show ?thesis by (auto simp: is_digit_def)
    qed simp
  qed
  have "[51] \<noteq> [] \<and> list_all is_digit [51]" by (simp add: is_digit_def)
  moreover have "digitsValue 0 [51] < 2 ^ 53" by simp
  ultimately have "parseSeatStatus ([0x6B8B] @ [51] @ 0x5E2D # []) = Num (digitsValue 0 [51])"
    using min parseSeatStatus_cases by blast
  then show "parseSeatStatus [0x6B8B, 51, 0x5E2D] = Num 3" by simp
next
  have "\<forall>pre ds post. ds \<noteq> [] \<and> list_all is_digit ds \<longrightarrow> ascii ''abc'' \<noteq> pre @ ds @ 0x5E2D # post"
  proof (intro allI impI notI)
    fix pre ds post :: jsstring
    assume "ascii ''abc'' = pre @ ds @ 0x5E2D # post"
    then have "0x5E2D \<in> set (ascii ''abc'')" by simp
    then show False by (simp add: ascii_def)
  qed
  with parseSeatStatus_cases show "parseSeatStatus (ascii ''abc'') = Num 0" by blast
qed

text \<open>
  A count beyond \<open>2 ^ 53\<close>: the digits write 9007199254740993, which is no double, and
  the result is the double next to it.
\<close>

theorem parseSeatStatus_rounds_big_count:
  "digitsValue 0 (ascii ''9007199254740993'') = 9007199254740993 \<and>
   parseSeatStatus textBigCount = Num 9007199254740992"
proof -
  have d: "digitsValue 0 (ascii ''9007199254740993'') = 9007199254740993"
    by (simp add: ascii_def)
  have m: "regexMatch seatRegex textBigCount = Some (ascii ''9007199254740993'')"
    by (simp add: textBigCount_def ascii_def seatRegex_def is_digit_def)
  have p: "parseInt (ascii ''9007199254740993'') = toDouble 9007199254740993"
    unfolding d[symmetric] by (rule parseInt_digits) (simp_all add: ascii_def is_digit_def)
  have b: "bitLength 9007199254740993 = 54"
    by (simp add: bitLength_numeral bitLength_one)
  have t: "toDouble 9007199254740993 = Num 9007199254740992"
    by (simp add: toDouble_def Let_def b)
  have n: "textBigCount \<noteq> [0x6E80, 0x5E2D]" "textBigCount \<noteq> [0xD7]"
    by (simp_all add: textBigCount_def ascii_def)
  show ?thesis using d m p t n by (simp add: parseSeatStatus_def)
qed

subsection \<open>The retry loop\<close>

lemma failedAttempts_step:
  "a < k \<Longrightarrow> failedAttempts c a k = ScrapeCall c a # Sleep (2 ^ a * 1000) # failedAttempts c (Suc a) k"
  by (simp add: failedAttempts_def upt_conv_Cons)

lemma retryLoop_success:
  assumes "a \<le> k" "int k \<le> m"
    and "\<forall>i. a \<le> i \<and> i < k \<longrightarrow> isl (scrapeVacancy up c i)"
    and "scrapeVacancy up c k = Inr v"
  shows "retryLoop up c m a le = (Inr v, failedAttempts c a k @ [ScrapeCall c k])"
  using assms(1,3)
proof (induction "k - a" arbitrary: a le)
  case 0
  then have "a = k" by simp
  then show ?case using assms(2,4)
    by (subst retryLoop.simps) (simp add: failedAttempts_def)
next
  case (Suc n)
  then have lt: "a < k" by simp
  then obtain e where e: "scrapeVacancy up c a = Inl e"
    using Suc.prems(2) by (cases "scrapeVacancy up c a") auto
  have am: "int a < m" using lt assms(2) by simp
  have ih: "retryLoop up c m (Suc a) (Some e) = (Inr v, failedAttempts c (Suc a) k @ [ScrapeCall c k])"
    using Suc.hyps(2) lt Suc.prems(2) by (intro Suc.hyps(1)) auto
  show ?case
    using am e ih by (subst retryLoop.simps) (simp add: failedAttempts_step[OF lt])
qed

lemma retryLoop_exhausted:
  assumes "a \<le> k" "int k = m"
    and "\<forall>i. a \<le> i \<and> i < k \<longrightarrow> isl (scrapeVacancy up c i)"
    and "scrapeVacancy up c k = Inl e"
  shows "retryLoop up c m a le = (Inl e, failedAttempts c a k @ [ScrapeCall c k])"
  using assms(1,3)
proof (induction "k - a" arbitrary: a le)
  case 0
  then have ak: "a = k" by simp
  have stop: "retryLoop up c m (Suc k) (Some e) = (Inl e, [])"
    using assms(2) by (subst retryLoop.simps) simp
  show ?case using assms(2,4) stop unfolding ak
    by (subst retryLoop.simps) (simp add: failedAttempts_def)
next
  case (Suc n)
  then have lt: "a < k" by simp
  then obtain e' where e: "scrapeVacancy up c a = Inl e'"
    using Suc.prems(2) by (cases "scrapeVacancy up c a") auto
  have am: "int a < m" using lt assms(2) by simp
  have ih: "retryLoop up c m (Suc a) (Some e') = (Inl e, failedAttempts c (Suc a) k @ [ScrapeCall c k])"
    using Suc.hyps(2) lt Suc.prems(2) by (intro Suc.hyps(1)) auto
  show ?case
    using am e ih by (subst retryLoop.simps) (simp add: failedAttempts_step[OF lt])
qed

lemma sleepTotal_append: "sleepTotal (xs @ ys) = sleepTotal xs + sleepTotal ys"
  by (induction xs rule: sleepTotal.induct) auto

text \<open>
  C5. For \<open>maxRetries\<close> of at least 1, \<^verbatim>\<open>scrapeWithRetry\<close> makes its attempts one after
  the other. When attempt \<open>k\<close> is the first to succeed it returns that result, having slept
  \<open>2 ^ i\<close> seconds after each failed attempt \<open>i\<close> before it. When every attempt fails it
  raises the error of the last one, with no sleep after the last attempt. With failures on
  attempts 1 and 2 and success on attempt 3 of 3 it returns the success value after
  2 s + 4 s of sleep.
\<close>

theorem scrapeWithRetry_spec:
  "1 \<le> maxRetries \<longrightarrow>
     (\<forall>k v. 1 \<le> k \<and> int k \<le> maxRetries \<and>
            (\<forall>i. 1 \<le> i \<and> i < k \<longrightarrow> isl (scrapeVacancy up c i)) \<and>
            scrapeVacancy up c k = Inr v
        \<longrightarrow> scrapeWithRetry up c maxRetries =
              (Inr v, failedAttempts c 1 k @ [ScrapeCall c k])) \<and>
     (\<forall>e. (\<forall>i. 1 \<le> i \<and> int i < maxRetries \<longrightarrow> isl (scrapeVacancy up c i)) \<and>
          scrapeVacancy up c (nat maxRetries) = Inl e
        \<longrightarrow> scrapeWithRetry up c maxRetries =
              (Inl e, failedAttempts c 1 (nat maxRetries) @ [ScrapeCall c (nat maxRetries)])) \<and>
     (\<forall>v. maxRetries = 3 \<and> isl (scrapeVacancy up c 1) \<and> isl (scrapeVacancy up c 2) \<and>
          scrapeVacancy up c 3 = Inr v
        \<longrightarrow> fst (scrapeWithRetry up c maxRetries) = Inr v \<and>
            sleepTotal (snd (scrapeWithRetry up c maxRetries)) = 2000 + 4000)"
proof (intro impI conjI allI)
  fix k v
  assume m: "1 \<le> maxRetries"
    and h: "1 \<le> k \<and> int k \<le> maxRetries \<and>
            (\<forall>i. 1 \<le> i \<and> i < k \<longrightarrow> isl (scrapeVacancy up c i)) \<and>
            scrapeVacancy up c k = Inr v"
  then show "scrapeWithRetry up c maxRetries = (Inr v, failedAttempts c 1 k @ [ScrapeCall c k])"
    unfolding scrapeWithRetry_def by (intro retryLoop_success) auto
next
  fix e
  assume m: "1 \<le> maxRetries"
    and h: "(\<forall>i. 1 \<le> i \<and> int i < maxRetries \<longrightarrow> isl (scrapeVacancy up c i)) \<and>
          scrapeVacancy up c (nat maxRetries) = Inl e"
  then show "scrapeWithRetry up c maxRetries =
              (Inl e, failedAttempts c 1 (nat maxRetries) @ [ScrapeCall c (nat maxRetries)])"
    unfolding scrapeWithRetry_def by (intro retryLoop_exhausted) auto
next
  fix v
  assume h: "maxRetries = 3 \<and> isl (scrapeVacancy up c 1) \<and> isl (scrapeVacancy up c 2) \<and>
          scrapeVacancy up c 3 = Inr v"
  have "\<forall>i. 1 \<le> i \<and> i < 3 \<longrightarrow> isl (scrapeVacancy up c i)"
  proof (intro allI impI)
    fix i :: nat assume "1 \<le> i \<and> i < 3"
    then have "i = 1 \<or> i = 2" by auto
    with h show "isl (scrapeVacancy up c i)" by auto
  qed
  with h have r: "scrapeWithRetry up c maxRetries = (Inr v, failedAttempts c 1 3 @ [ScrapeCall c 3])"
    unfolding scrapeWithRetry_def by (intro retryLoop_success) auto
  have fa: "failedAttempts c 1 3 = [ScrapeCall c 1, Sleep 2000, ScrapeCall c 2, Sleep 4000]"
    by (simp add: failedAttempts_def upt_conv_Cons)
  show "fst (scrapeWithRetry up c maxRetries) = Inr v" using r by simp
  show "sleepTotal (snd (scrapeWithRetry up c maxRetries)) = 2000 + 4000"
    unfolding r fa by simp
qed

theorem scrapeWithRetry_spec_witness:
  "scrapeWithRetry upFlaky ''20333'' 3 =
     (Inr vacancyThree,
      [ScrapeCall ''20333'' 1, Sleep 2000, ScrapeCall ''20333'' 2, Sleep 4000,
       ScrapeCall ''20333'' 3]) \<and>
   scrapeWithRetry upDown ''20333'' 2 =
     (Inl (Error ''timeout''), [ScrapeCall ''20333'' 1, Sleep 2000, ScrapeCall ''20333'' 2]) \<and>
   sleepTotal (snd (scrapeWithRetry upFlaky ''20333'' 3)) = 6000"
proof -
  have fail: "scrapeVacancy upFlaky ''20333'' i = Inl (Error ''timeout'')" if "i < 3" for i
    using that by (simp add: scrapeVacancy_def upFlaky_def)
  have ok: "scrapeVacancy upFlaky ''20333'' 3 = Inr vacancyThree"
    by (simp add: scrapeVacancy_def upFlaky_def vacancyThree_def extractDartVacancy_def
        dartSelectors_def docWith_def availableRegex_def totalSlashRegex_def totalAllRegex_def
        parseInt_def is_digit_def is_space_def Let_def toDouble_small ratioBelowPoint3_def)
  have down: "scrapeVacancy upDown ''20333'' i = Inl (Error ''timeout'')" for i
    by (simp add: scrapeVacancy_def upDown_def)
  have fa3: "failedAttempts ''20333'' 1 3 =
      [ScrapeCall ''20333'' 1, Sleep 2000, ScrapeCall ''20333'' 2, Sleep 4000]"
    by (simp add: failedAttempts_def upt_conv_Cons)
  have fa2: "failedAttempts ''20333'' 1 2 = [ScrapeCall ''20333'' 1, Sleep 2000]"
    by (simp add: failedAttempts_def upt_conv_Cons)
  note spec3 = scrapeWithRetry_spec[of 3 upFlaky "''20333''"]
  note spec2 = scrapeWithRetry_spec[of 2 upDown "''20333''"]
  have a: "scrapeWithRetry upFlaky ''20333'' 3 =
      (Inr vacancyThree, failedAttempts ''20333'' 1 3 @ [ScrapeCall ''20333'' 3])"
    using spec3 fail ok by simp
  have b: "scrapeWithRetry upDown ''20333'' 2 =
      (Inl (Error ''timeout''), failedAttempts ''20333'' 1 2 @ [ScrapeCall ''20333'' 2])"
    using spec2 down by simp
  have c: "sleepTotal (snd (scrapeWithRetry upFlaky ''20333'' 3)) = 2000 + 4000"
    using spec3 fail[of 1] fail[of 2] ok by simp
  show ?thesis using a[unfolded fa3] b[unfolded fa2] c by simp
qed

text \<open>
  C10. For every \<open>maxRetries\<close> below 1, \<^verbatim>\<open>scrapeWithRetry\<close> makes no attempt and no
  sleep, and raises the fixed error "Failed to fetch vacancy data after all retries".
\<close>

theorem scrapeWithRetry_no_attempt:
  "maxRetries < 1 \<Longrightarrow>
     scrapeWithRetry up storeCode maxRetries =
       (Inl (Error ''Failed to fetch vacancy data after all retries''), [])"
  unfolding scrapeWithRetry_def by (subst retryLoop.simps) simp

theorem scrapeWithRetry_no_attempt_witness:
  "(0::int) < 1 \<and>
   scrapeWithRetry upOk ''20333'' 0 =
     (Inl (Error ''Failed to fetch vacancy data after all retries''), [])"
  using scrapeWithRetry_no_attempt[of 0 upOk "''20333''"] by simp

subsection \<open>The next trigger instant\<close>

lemma int_divmod_unique:
  fixes b q r :: int
  assumes "0 \<le> r" "r < b"
  shows "(b * q + r) div b = q" "(b * q + r) mod b = r"
  using assms by (auto simp: div_pos_pos_trivial)

lemma makeDate_fields:
  assumes "0 \<le> h" "h < 24" "0 \<le> m" "m < 60" "0 \<le> s" "s < 60" "0 \<le> ms" "ms < 1000"
  shows "makeDate D h m s ms div 86400000 = D"
    and "hourFromTime (makeDate D h m s ms) = h"
    and "minFromTime (makeDate D h m s ms) = m"
    and "secFromTime (makeDate D h m s ms) = s"
    and "msFromTime (makeDate D h m s ms) = ms"
proof -
  let ?t = "makeDate D h m s ms"
  have a: "?t = 86400000 * D + (h * 3600000 + m * 60000 + s * 1000 + ms)"
    by (simp add: makeDate_def)
  show "?t div 86400000 = D"
    unfolding a using assms by (intro int_divmod_unique) auto
  have b: "?t = 3600000 * (24 * D + h) + (m * 60000 + s * 1000 + ms)"
    by (simp add: makeDate_def)
  have "?t div 3600000 = 24 * D + h"
    unfolding b using assms by (intro int_divmod_unique) auto
  then show "hourFromTime ?t = h"
    unfolding hourFromTime_def using assms int_divmod_unique(2)[of h 24 D] by simp
  have c: "?t = 60000 * (60 * (24 * D + h) + m) + (s * 1000 + ms)"
    by (simp add: makeDate_def)
  have "?t div 60000 = 60 * (24 * D + h) + m"
    unfolding c using assms by (intro int_divmod_unique) auto
  then show "minFromTime ?t = m"
    unfolding minFromTime_def using assms int_divmod_unique(2)[of m 60 "24 * D + h"] by simp
  have d: "?t = 1000 * (60 * (60 * (24 * D + h) + m) + s) + ms"
    by (simp add: makeDate_def)
  have "?t div 1000 = 60 * (60 * (24 * D + h) + m) + s"
    unfolding d using assms by (intro int_divmod_unique) auto
  then show "secFromTime ?t = s"
    unfolding secFromTime_def using assms int_divmod_unique(2)[of s 60 "60 * (24 * D + h) + m"] by simp
  show "msFromTime ?t = ms"
    unfolding msFromTime_def d using assms by (intro int_divmod_unique) auto
qed

lemma date_decompose:
  obtains D h m s ms where "now = makeDate D h m s ms"
    "0 \<le> h" "h < 24" "0 \<le> m" "m < 60" "0 \<le> s" "s < 60" "0 \<le> ms" "ms < 1000"
proof -
  define ms where "ms = now mod 1000"
  define S where "S = now div 1000"
  define s where "s = S mod 60"
  define M where "M = S div 60"
  define m where "m = M mod 60"
  define H where "H = M div 60"
  define h where "h = H mod 24"
  define D where "D = H div 24"
  have "now = 1000 * S + ms" by (simp add: S_def ms_def)
  moreover have "S = 60 * M + s" by (simp add: M_def s_def)
  moreover have "M = 60 * H + m" by (simp add: H_def m_def)
  moreover have "H = 24 * D + h" by (simp add: D_def h_def)
  ultimately have "now = makeDate D h m s ms" by (simp add: makeDate_def)
  moreover have "0 \<le> h" "h < 24" "0 \<le> m" "m < 60" "0 \<le> s" "s < 60" "0 \<le> ms" "ms < 1000"
    by (simp_all add: h_def m_def s_def ms_def)
  ultimately show ?thesis using that by blast
qed

text \<open>In a zone of fixed offset, the getters and setters on the instant of a local time.\<close>

lemma fixedZone_get:
  assumes "0 \<le> h" "h < 24" "0 \<le> m" "m < 60" "0 \<le> s" "s < 60" "0 \<le> ms" "ms < 1000"
  shows "getHours (fixedZone c) (makeDate D h m s ms - c) = h"
    and "getMinutes (fixedZone c) (makeDate D h m s ms - c) = m"
    and "getSeconds (fixedZone c) (makeDate D h m s ms - c) = s"
    and "getMilliseconds (fixedZone c) (makeDate D h m s ms - c) = ms"
  by (simp_all add: getHours_def getMinutes_def getSeconds_def getMilliseconds_def
      fixedZone_def makeDate_fields[OF assms])

lemma fixedZone_set:
  assumes "0 \<le> h" "h < 24" "0 \<le> m" "m < 60" "0 \<le> s" "s < 60" "0 \<le> ms" "ms < 1000"
  shows "setHours (fixedZone c) (makeDate D h m s ms - c) h' = makeDate D h' m s ms - c"
    and "setMinutes (fixedZone c) (makeDate D h m s ms - c) m' = makeDate D h m' s ms - c"
    and "setSeconds (fixedZone c) (makeDate D h m s ms - c) s' = makeDate D h m s' ms - c"
    and "setMilliseconds (fixedZone c) (makeDate D h m s ms - c) ms' = makeDate D h m s ms' - c"
  by (simp_all add: setHours_def setMinutes_def setSeconds_def setMilliseconds_def
      fixedZone_def Let_def makeDate_fields[OF assms])

lemma getNextScheduledTime_fields:
  assumes "0 \<le> h" "h < 24" "0 \<le> m" "m < 60" "0 \<le> s" "s < 60" "0 \<le> ms" "ms < 1000"
  shows "getNextScheduledTime (fixedZone c) (makeDate D h m s ms - c) =
           makeDate D h ((if m mod 10 \<ge> 4 then m div 10 + 1 else m div 10) * 10 + 4) 0 0 - c"
proof -
  let ?z = "fixedZone c"
  let ?now = "makeDate D h m s ms - c"
  note f = fixedZone_get[OF assms, of c D]
  have slot: "0 \<le> m div 10" "m div 10 \<le> 5" using assms by auto
  have z: "(0::int) \<le> 0" "(0::int) < 60" "(0::int) < 1000" "(0::int) \<le> 4" "(4::int) < 60" by auto
  show ?thesis
  proof (cases "m mod 10 \<ge> 4")
    case False
    let ?nm = "m div 10 * 10 + 4"
    have nm: "0 \<le> ?nm" "?nm < 60" using slot by auto
    have 1: "setMinutes ?z ?now ?nm = makeDate D h ?nm s ms - c"
      by (rule fixedZone_set[OF assms])
    have 2: "setSeconds ?z (makeDate D h ?nm s ms - c) 0 = makeDate D h ?nm 0 ms - c"
      by (rule fixedZone_set[OF assms(1,2) nm assms(5-8)])
    have 3: "setMilliseconds ?z (makeDate D h ?nm 0 ms - c) 0 = makeDate D h ?nm 0 0 - c"
      by (rule fixedZone_set[OF assms(1,2) nm z(1,2) assms(7,8)])
    have "getNextScheduledTime ?z ?now = setMilliseconds ?z (setSeconds ?z (setMinutes ?z ?now ?nm) 0) 0"
      using False nm unfolding getNextScheduledTime_def Let_def f by simp
    also have "\<dots> = makeDate D h ?nm 0 0 - c" by (simp only: 1 2 3)
    finally show ?thesis using False by simp
  next
    case True
    show ?thesis
    proof (cases "m div 10 = 5")
      case False
      let ?nm = "(m div 10 + 1) * 10 + 4"
      have nm: "0 \<le> ?nm" "?nm < 60" using slot False by auto
      have 1: "setMinutes ?z ?now ?nm = makeDate D h ?nm s ms - c"
        by (rule fixedZone_set[OF assms])
      have 2: "setSeconds ?z (makeDate D h ?nm s ms - c) 0 = makeDate D h ?nm 0 ms - c"
        by (rule fixedZone_set[OF assms(1,2) nm assms(5-8)])
      have 3: "setMilliseconds ?z (makeDate D h ?nm 0 ms - c) 0 = makeDate D h ?nm 0 0 - c"
        by (rule fixedZone_set[OF assms(1,2) nm z(1,2) assms(7,8)])
      have "getNextScheduledTime ?z ?now = setMilliseconds ?z (setSeconds ?z (setMinutes ?z ?now ?nm) 0) 0"
        using True nm unfolding getNextScheduledTime_def Let_def f by simp
      also have "\<dots> = makeDate D h ?nm 0 0 - c" by (simp only: 1 2 3)
      finally show ?thesis using True by simp
    next
      case five: True
      define D' where "D' = (if h = 23 then D + 1 else D)"
      define h' where "h' = (if h = 23 then 0 else h + 1)"
      have h': "0 \<le> h'" "h' < 24" using assms by (auto simp: h'_def)
      have carry: "makeDate D (h + 1) a b e = makeDate D' h' a b e" for a b e
        by (auto simp: D'_def h'_def makeDate_def)
      have 0: "setHours ?z ?now (h + 1) = makeDate D' h' m s ms - c"
        unfolding fixedZone_set(1)[OF assms] carry ..
      have 1: "setMinutes ?z (makeDate D' h' m s ms - c) 4 = makeDate D' h' 4 s ms - c"
        by (rule fixedZone_set[OF h' assms(3-8)])
      have 2: "setSeconds ?z (makeDate D' h' 4 s ms - c) 0 = makeDate D' h' 4 0 ms - c"
        by (rule fixedZone_set[OF h' z(4,5) assms(5-8)])
      have 3: "setMilliseconds ?z (makeDate D' h' 4 0 ms - c) 0 = makeDate D' h' 4 0 0 - c"
        by (rule fixedZone_set[OF h' z(4,5) z(1,2) assms(7,8)])
      have 4: "makeDate D' h' 4 0 0 = makeDate D h 64 0 0"
        by (auto simp: D'_def h'_def makeDate_def)
      have "getNextScheduledTime ?z ?now =
              setMilliseconds ?z (setSeconds ?z (setMinutes ?z (setHours ?z ?now (h + 1)) 4) 0) 0"
        using True five unfolding getNextScheduledTime_def Let_def f by simp
      also have "\<dots> = makeDate D h 64 0 0 - c" by (simp only: 0 1 2 3 4)
      finally show ?thesis using True five by simp
    qed
  qed
qed

lemma next_bounds:
  "getNextScheduledTime (fixedZone c) now - 600000 \<le> now \<and>
   now < getNextScheduledTime (fixedZone c) now \<and>
   (getNextScheduledTime (fixedZone c) now + c) mod 600000 = 240000"
proof -
  obtain D h m s ms where l: "now + c = makeDate D h m s ms"
    and r: "0 \<le> h" "h < 24" "0 \<le> m" "m < 60" "0 \<le> s" "s < 60" "0 \<le> ms" "ms < 1000"
    by (rule date_decompose)
  have now: "now = makeDate D h m s ms - c" using l by simp
  define q where "q = m div 10"
  define u where "u = m mod 10"
  have m: "m = 10 * q + u" and u: "0 \<le> u" "u < 10" by (simp_all add: q_def u_def)
  define ns where "ns = (if u \<ge> 4 then q + 1 else q)"
  have nx: "getNextScheduledTime (fixedZone c) now = makeDate D h (ns * 10 + 4) 0 0 - c"
    unfolding now getNextScheduledTime_fields[OF r] ns_def q_def u_def by simp
  have v: "makeDate D h (ns * 10 + 4) 0 0 = 600000 * (144 * D + 6 * h + ns) + 240000"
    by (simp add: makeDate_def)
  have n: "now = 600000 * (144 * D + 6 * h + q) + 60000 * u + 1000 * s + ms - c"
    unfolding now m by (simp add: makeDate_def)
  have "(600000 * (144 * D + 6 * h + ns) + 240000) mod 600000 = (240000::int)"
    by (intro int_divmod_unique) auto
  then have "(getNextScheduledTime (fixedZone c) now + c) mod 600000 = 240000"
    unfolding nx v by (simp only: diff_add_cancel)
  moreover have "now < getNextScheduledTime (fixedZone c) now"
    "getNextScheduledTime (fixedZone c) now - 600000 \<le> now"
    unfolding nx v using r u by (auto simp: n ns_def)
  ultimately show ?thesis by simp
qed

lemma isTrigger_iff: "isTrigger (fixedZone c) t \<longleftrightarrow> (t + c) mod 600000 = 240000"
proof -
  obtain D h m s ms where l: "t + c = makeDate D h m s ms"
    and r: "0 \<le> h" "h < 24" "0 \<le> m" "m < 60" "0 \<le> s" "s < 60" "0 \<le> ms" "ms < 1000"
    by (rule date_decompose)
  have t: "t = makeDate D h m s ms - c" using l by simp
  note f = fixedZone_get[OF r, of c D]
  define q where "q = m div 10"
  define u where "u = m mod 10"
  have m: "m = 10 * q + u" and u: "0 \<le> u" "u < 10" by (simp_all add: q_def u_def)
  have v: "t + c = 600000 * (144 * D + 6 * h + q) + (60000 * u + 1000 * s + ms)"
    unfolding l m by (simp add: makeDate_def)
  have "(t + c) mod 600000 = 60000 * u + 1000 * s + ms"
    unfolding v using r u by (intro int_divmod_unique) auto
  moreover have "isTrigger (fixedZone c) t \<longleftrightarrow> u = 4 \<and> s = 0 \<and> ms = 0"
    unfolding isTrigger_def t f u_def ..
  moreover have "60000 * u + 1000 * s + ms = 240000 \<longleftrightarrow> u = 4 \<and> s = 0 \<and> ms = 0"
  proof
    assume e: "60000 * u + 1000 * s + ms = 240000"
    define k where "k = 240 - 60 * u - s"
    have "ms = 1000 * k" using e by (simp add: k_def)
    with r(7,8) have "k = 0" by simp
    then have s: "s = 60 * (4 - u)" and ms: "ms = 0" using \<open>ms = 1000 * k\<close> by (simp_all add: k_def)
    with r(5,6) have "4 - u = 0" by simp
    with s ms show "u = 4 \<and> s = 0 \<and> ms = 0" by simp
  qed simp
  ultimately show ?thesis by simp
qed

text \<open>
  C4, as the code has it. In a time zone whose offset from UTC never changes, for every
  instant \<open>now\<close>, \<^verbatim>\<open>getNextScheduledTime\<close> gives the smallest trigger instant (minute
  4 of a ten-minute slot of the local clock, second 0) strictly after \<open>now\<close>: at a
  trigger instant it gives the next one, and past minute 54 it goes to minute 4 of the next
  hour. On any day, 23:01:00 gives 23:04:00, 23:04:00 gives 23:14:00, 23:07:30 gives
  23:14:00 and 23:56:00 gives 00:04:00 of the next day.
\<close>

theorem getNextScheduledTime_spec:
  "isTrigger (fixedZone c) (getNextScheduledTime (fixedZone c) now) \<and>
   now < getNextScheduledTime (fixedZone c) now \<and>
   (\<forall>t. now < t \<and> isTrigger (fixedZone c) t \<longrightarrow> getNextScheduledTime (fixedZone c) now \<le> t) \<and>
   getNextScheduledTime (fixedZone c) (atTime (fixedZone c) d 23 1 0 0) =
     atTime (fixedZone c) d 23 4 0 0 \<and>
   getNextScheduledTime (fixedZone c) (atTime (fixedZone c) d 23 4 0 0) =
     atTime (fixedZone c) d 23 14 0 0 \<and>
   getNextScheduledTime (fixedZone c) (atTime (fixedZone c) d 23 7 30 0) =
     atTime (fixedZone c) d 23 14 0 0 \<and>
   getNextScheduledTime (fixedZone c) (atTime (fixedZone c) d 23 56 0 0) =
     atTime (fixedZone c) (d + 1) 0 4 0 0"
proof (intro conjI allI impI)
  note b = next_bounds[of c now]
  have at: "atTime (fixedZone c) D h m s ms = makeDate D h m s ms - c" for D h m s ms
    by (simp add: atTime_def fixedZone_def)
  show "isTrigger (fixedZone c) (getNextScheduledTime (fixedZone c) now)"
    using b by (simp add: isTrigger_iff)
  show "now < getNextScheduledTime (fixedZone c) now" using b by simp
  show "getNextScheduledTime (fixedZone c) now \<le> t" if h: "now < t \<and> isTrigger (fixedZone c) t" for t
  proof -
    define n where "n = getNextScheduledTime (fixedZone c) now + c"
    define t' where "t' = t + c"
    have 1: "t' = 600000 * (t' div 600000) + 240000"
      using h mult_div_mod_eq[of 600000 t'] by (simp add: isTrigger_iff t'_def)
    have 2: "n = 600000 * (n div 600000) + 240000"
      using b mult_div_mod_eq[of 600000 n] by (simp add: n_def)
    have "n - 600000 < t'" using b h by (simp add: n_def t'_def)
    then have "n div 600000 - 1 < t' div 600000" using 1 2 by linarith
    then have "n \<le> t'" using 1 2 by linarith
    then show ?thesis by (simp add: n_def t'_def)
  qed
  show "getNextScheduledTime (fixedZone c) (atTime (fixedZone c) d 23 1 0 0) =
     atTime (fixedZone c) d 23 4 0 0"
    unfolding at by (subst getNextScheduledTime_fields) simp_all
  show "getNextScheduledTime (fixedZone c) (atTime (fixedZone c) d 23 4 0 0) =
     atTime (fixedZone c) d 23 14 0 0"
    unfolding at by (subst getNextScheduledTime_fields) simp_all
  show "getNextScheduledTime (fixedZone c) (atTime (fixedZone c) d 23 7 30 0) =
     atTime (fixedZone c) d 23 14 0 0"
    unfolding at by (subst getNextScheduledTime_fields) simp_all
  show "getNextScheduledTime (fixedZone c) (atTime (fixedZone c) d 23 56 0 0) =
     atTime (fixedZone c) (d + 1) 0 4 0 0"
    unfolding at by (subst getNextScheduledTime_fields) (simp_all add: makeDate_def)
qed

theorem getNextScheduledTime_spec_witness:
  "atTime jst 0 23 1 0 0 < atTime jst 0 23 14 0 0 \<and> isTrigger jst (atTime jst 0 23 14 0 0) \<and>
   getNextScheduledTime jst (atTime jst 0 23 1 0 0) \<le> atTime jst 0 23 14 0 0"
proof -
  have 1: "atTime jst 0 23 1 0 0 < atTime jst 0 23 14 0 0"
    by (simp add: atTime_def jst_def fixedZone_def makeDate_def)
  have 2: "isTrigger jst (atTime jst 0 23 14 0 0)"
    by (simp add: isTrigger_def atTime_def jst_def fixedZone_def makeDate_def getMinutes_def
        getSeconds_def getMilliseconds_def minFromTime_def secFromTime_def msFromTime_def)
  from getNextScheduledTime_spec[of 32400000 "atTime jst 0 23 1 0 0"] 1 2
  show ?thesis unfolding jst_def by blast
qed

text \<open>
  In London at 00:56 UTC of 27 October 2024 the local clock shows 01:56. The code asks for
  02:04 of the local clock, which comes 68 minutes later, and passes over the instant 8
  minutes later at which the local clock, set back at 01:00 UTC, shows 01:04.
\<close>

theorem getNextScheduledTime_skips_repeated_hour:
  "getNextScheduledTime londonAutumn2024 1729990560000 = 1729990560000 + 4080000 \<and>
   isTrigger londonAutumn2024 (1729990560000 + 480000)"
proof -
  have g: "getMinutes londonAutumn2024 1729990560000 = 56"
    "getHours londonAutumn2024 1729990560000 = 1"
    by (simp_all add: getMinutes_def getHours_def londonAutumn2024_def minFromTime_def
        hourFromTime_def)
  have 1: "setHours londonAutumn2024 1729990560000 (1 + 1) = 1729997760000"
    by (simp add: setHours_def londonAutumn2024_def Let_def makeDate_def minFromTime_def
        secFromTime_def msFromTime_def)
  have 2: "setMinutes londonAutumn2024 1729997760000 4 = 1729994640000"
    by (simp add: setMinutes_def londonAutumn2024_def Let_def makeDate_def hourFromTime_def
        secFromTime_def msFromTime_def)
  have 3: "setSeconds londonAutumn2024 1729994640000 0 = 1729994640000"
    by (simp add: setSeconds_def londonAutumn2024_def Let_def makeDate_def hourFromTime_def
        minFromTime_def msFromTime_def)
  have 4: "setMilliseconds londonAutumn2024 1729994640000 0 = 1729994640000"
    by (simp add: setMilliseconds_def londonAutumn2024_def Let_def makeDate_def hourFromTime_def
        minFromTime_def secFromTime_def)
  have "getNextScheduledTime londonAutumn2024 1729990560000 =
      setMilliseconds londonAutumn2024
        (setSeconds londonAutumn2024
           (setMinutes londonAutumn2024 (setHours londonAutumn2024 1729990560000 (1 + 1)) 4) 0) 0"
    unfolding getNextScheduledTime_def Let_def g by simp
  also have "\<dots> = 1729994640000" by (simp only: 1 2 3 4)
  finally have a: "getNextScheduledTime londonAutumn2024 1729990560000 = 1729990560000 + 4080000"
    by simp
  have b: "isTrigger londonAutumn2024 (1729990560000 + 480000)"
    by (simp add: isTrigger_def getMinutes_def getSeconds_def getMilliseconds_def
        londonAutumn2024_def minFromTime_def secFromTime_def msFromTime_def)
  show ?thesis using a b by simp
qed

subsection \<open>The status of a record\<close>

lemma parseSeatStatus_nonneg:
  "parseSeatStatus s = PosInf \<or> (\<exists>n\<ge>0. parseSeatStatus s = Num n)"
proof (cases "regexMatch seatRegex s")
  case None
  then show ?thesis by (auto simp: parseSeatStatus_def)
next
  case (Some g)
  from regexMatch_seat_Some[OF this] have g: "g \<noteq> []" "\<forall>c\<in>set g. is_digit c" by auto
  have "0 \<le> digitsValue 0 g" using g(2) by (intro digitsValue_nonneg) auto
  from toDouble_nonneg[OF this] show ?thesis
    using Some parseInt_digits[OF g] by (auto simp: parseSeatStatus_def)
qed

lemma dartVacancyOfPayload_total:
  "dv_total (dartVacancyOfPayload data) = dv_available (dartVacancyOfPayload data)"
proof (cases "findDartInfo data")
  case None
  then show ?thesis by (simp add: dartVacancyOfPayload_def)
next
  case (Some info)
  have "positiveOrZero (parseSeatStatus (seat_status info)) = parseSeatStatus (seat_status info)"
    using parseSeatStatus_nonneg[of "seat_status info"] by auto
  then show ?thesis using Some by (simp add: dartVacancyOfPayload_def Let_def)
qed

lemma trySelectors_status:
  "trySelectors doc sels = Some v \<Longrightarrow>
     dv_status v = determineStatus (dv_available v) (dv_total v)"
  by (induction sels) (auto simp: Let_def split: if_splits option.splits)

lemma scanRows_status:
  "scanRows rows = Some v \<Longrightarrow> dv_status v = determineStatus (dv_available v) (dv_total v)"
  by (induction rows) (auto simp: Let_def split: if_splits option.splits)

lemma extractDartVacancy_status:
  "dv_status (extractDartVacancy doc) =
     determineStatus (dv_available (extractDartVacancy doc)) (dv_total (extractDartVacancy doc))"
  by (auto simp: extractDartVacancy_def trySelectors_status scanRows_status split: option.splits)

lemma determineStatus_total_zero: "determineStatus a (Num 0) = Unknown"
  by simp

lemmas eval_defs = dartVacancyOfPayload_def findDartInfo_def isDartSeat_def dartsSeat_def
  parseSeatStatus_def seatRegex_def parseIntAny_def parseInt_def is_digit_def is_space_def
  ascii_def Let_def toDouble_small ratioBelowPoint3_def

text \<open>
  C1, as the code has it. A record of the rendered-document parse has the status that
  \<^verbatim>\<open>determineStatus\<close> gives for its counts, so a total of 0 comes with the status unknown.
  A record of a structured payload, fetched from the endpoint or captured during a page
  load, has a total equal to its available count; when the darts entry is missing it is
  0, 0, unknown, and otherwise its status is the one mapped from the status code (unknown
  for a missing code or one outside 1 to 4), whatever the counts are. Every record of
  \<^verbatim>\<open>fetchVacancyFromAPI\<close> and of \<^verbatim>\<open>scrapeVacancy\<close> comes from one of these parses.
\<close>

theorem status_of_each_path:
  "(\<forall>doc. dv_status (extractDartVacancy doc) =
            determineStatus (dv_available (extractDartVacancy doc))
              (dv_total (extractDartVacancy doc)) \<and>
          (dv_total (extractDartVacancy doc) = Num 0 \<longrightarrow>
             dv_status (extractDartVacancy doc) = Unknown)) \<and>
   (\<forall>data. dv_total (dartVacancyOfPayload data) = dv_available (dartVacancyOfPayload data) \<and>
           (case findDartInfo data of
              None \<Rightarrow> dartVacancyOfPayload data =
                        \<lparr>dv_available = Num 0, dv_total = Num 0, dv_status = Unknown\<rparr>
            | Some dartInfo \<Rightarrow>
                dv_status (dartVacancyOfPayload data) =
                  mapStatusNo (parseIntAny (status_no dartInfo)))) \<and>
   (\<forall>up storeCode r. fetchVacancyFromAPI up storeCode = Inr r \<longrightarrow>
      (\<exists>data. apiResponse up storeCode = Inr data \<and> api_status data = 0 \<and>
              vd_dartVacancy r = dartVacancyOfPayload data)) \<and>
   (\<forall>up storeCode n r. scrapeVacancy up storeCode n = Inr r \<longrightarrow>
      (\<exists>captured doc. pageLoad up storeCode n = Inr (captured, doc) \<and>
         vd_dartVacancy r =
           (case captured of
              Some data \<Rightarrow> dartVacancyOfPayload data
            | None \<Rightarrow> extractDartVacancy doc)))"
proof (intro conjI allI impI)
  fix doc
  show s: "dv_status (extractDartVacancy doc) =
            determineStatus (dv_available (extractDartVacancy doc))
              (dv_total (extractDartVacancy doc))"
    by (rule extractDartVacancy_status)
  show "dv_status (extractDartVacancy doc) = Unknown"
    if "dv_total (extractDartVacancy doc) = Num 0"
    using s that by simp
next
  fix data
  show "dv_total (dartVacancyOfPayload data) = dv_available (dartVacancyOfPayload data)"
    by (rule dartVacancyOfPayload_total)
  show "case findDartInfo data of
          None \<Rightarrow> dartVacancyOfPayload data =
                    \<lparr>dv_available = Num 0, dv_total = Num 0, dv_status = Unknown\<rparr>
        | Some dartInfo \<Rightarrow>
            dv_status (dartVacancyOfPayload data) =
              mapStatusNo (parseIntAny (status_no dartInfo))"
    by (cases "findDartInfo data") (simp_all add: dartVacancyOfPayload_def Let_def)
next
  fix up storeCode r
  assume h: "fetchVacancyFromAPI up storeCode = Inr r"
  show "\<exists>data. apiResponse up storeCode = Inr data \<and> api_status data = 0 \<and>
              vd_dartVacancy r = dartVacancyOfPayload data"
  proof (cases "apiResponse up storeCode")
    case (Inl e)
    with h show ?thesis by (simp add: fetchVacancyFromAPI_def)
  next
    case (Inr data)
    with h have "api_status data = 0" "vd_dartVacancy r = dartVacancyOfPayload data"
      by (auto simp: fetchVacancyFromAPI_def split: if_splits)
    with Inr show ?thesis by simp
  qed
next
  fix up storeCode n r
  assume h: "scrapeVacancy up storeCode n = Inr r"
  show "\<exists>captured doc. pageLoad up storeCode n = Inr (captured, doc) \<and>
         vd_dartVacancy r =
           (case captured of
              Some data \<Rightarrow> dartVacancyOfPayload data
            | None \<Rightarrow> extractDartVacancy doc)"
  proof (cases "pageLoad up storeCode n")
    case (Inl e)
    with h show ?thesis by (simp add: scrapeVacancy_def)
  next
    case (Inr p)
    obtain captured doc where p: "p = (captured, doc)" by (cases p)
    have "vd_dartVacancy r =
           (case captured of
              Some data \<Rightarrow> dartVacancyOfPayload data
            | None \<Rightarrow> extractDartVacancy doc)"
      using h Inr p by (cases captured) (auto simp: scrapeVacancy_def)
    with Inr p show ?thesis by simp
  qed
qed

theorem status_of_each_path_witness:
  "dv_total (extractDartVacancy emptyDoc) = Num 0 \<and>
   dv_status (extractDartVacancy emptyDoc) = Unknown \<and>
   fetchVacancyFromAPI upOk ''20333'' = Inr vacancyThree \<and>
   vd_dartVacancy vacancyThree = dartVacancyOfPayload payloadThree \<and>
   scrapeVacancy upFull ''20333'' 1 =
     Inr \<lparr>vd_storeCode = ''20333'', vd_dartVacancy = extractDartVacancy emptyDoc\<rparr>"
proof -
  have t: "dv_total (extractDartVacancy emptyDoc) = Num 0"
    by (simp add: extractDartVacancy_def emptyDoc_def dartSelectors_def)
  have f: "fetchVacancyFromAPI upOk ''20333'' = Inr vacancyThree"
    by (simp add: fetchVacancyFromAPI_def upOk_def payloadThree_def vacancyThree_def eval_defs)
  have s: "scrapeVacancy upFull ''20333'' 1 =
     Inr \<lparr>vd_storeCode = ''20333'', vd_dartVacancy = extractDartVacancy emptyDoc\<rparr>"
    by (simp add: scrapeVacancy_def upFull_def)
  have a: "apiResponse upOk ''20333'' = Inr payloadThree" by (simp add: upOk_def)
  from status_of_each_path t
  have u: "dv_status (extractDartVacancy emptyDoc) = Unknown" by blast
  from status_of_each_path f
  obtain data where "apiResponse upOk ''20333'' = Inr data"
    "vd_dartVacancy vacancyThree = dartVacancyOfPayload data" by blast
  with a have "vd_dartVacancy vacancyThree = dartVacancyOfPayload payloadThree" by simp
  with t u f s show ?thesis by simp
qed

text \<open>
  A full store on the structured path: the full marker gives 0 available and 0 in total,
  and status code 4 gives the status full, not unknown.
\<close>

theorem full_store_total_zero_status_full:
  "fetchVacancyFromAPI upFull ''20333'' =
     Inr \<lparr>vd_storeCode = ''20333'',
          vd_dartVacancy = \<lparr>dv_available = Num 0, dv_total = Num 0, dv_status = Full\<rparr>\<rparr>"
  by (simp add: fetchVacancyFromAPI_def upFull_def payloadFull_def eval_defs)

text \<open>
  Three seats left and no status code: the status is unknown, where the ratio of the counts
  would give vacant.
\<close>

lemma missing_code_status_unknown:
  "dartVacancyOfPayload payloadNoCode =
     \<lparr>dv_available = Num 3, dv_total = Num 3, dv_status = Unknown\<rparr> \<and>
   determineStatus (Num 3) (Num 3) = Vacant"
  by (simp add: payloadNoCode_def eval_defs)

text \<open>
  C6. For the element text "3 / 8" followed by the unit counter, the pattern of the
  available count matches at the 8, the only digits that the counter follows: the result
  is 8 of 8, not 3 of 8.
\<close>

theorem extractDartVacancy_three_of_eight:
  "extractDartVacancy (docWith textThreeOfEight) =
     \<lparr>dv_available = Num 8, dv_total = Num 8, dv_status = Vacant\<rparr>"
  by (simp add: extractDartVacancy_def docWith_def textThreeOfEight_def dartSelectors_def
      availableRegex_def totalSlashRegex_def totalAllRegex_def parseInt_def is_digit_def
      is_space_def Let_def toDouble_small ratioBelowPoint3_def)

text \<open>The count alone, "3" followed by the unit counter, gives 3 of 3.\<close>

lemma extractDartVacancy_count_only:
  "extractDartVacancy (docWith [51, 0x53F0]) =
     \<lparr>dv_available = Num 3, dv_total = Num 3, dv_status = Vacant\<rparr>"
  by (simp add: extractDartVacancy_def docWith_def dartSelectors_def
      availableRegex_def totalSlashRegex_def totalAllRegex_def parseInt_def is_digit_def
      is_space_def Let_def toDouble_small ratioBelowPoint3_def)

subsection \<open>Stopping the scheduler\<close>

lemma stop_idempotent: "stop (stop sc) = stop sc"
  by (simp add: stop_def)

lemma stop_without_start: "stop newScheduler = newScheduler"
  by (simp add: stop_def newScheduler_def)

lemma first_trigger_delay:
  "getNextScheduledTime (fixedZone c) (atTime (fixedZone c) 0 23 1 0 0) -
     atTime (fixedZone c) 0 23 1 0 0 = 180000"
proof -
  have at: "atTime (fixedZone c) D h m s ms = makeDate D h m s ms - c" for D h m s ms
    by (simp add: atTime_def fixedZone_def)
  have "getNextScheduledTime (fixedZone c) (makeDate 0 23 1 0 0 - c) =
      makeDate 0 23 4 0 0 - c"
    by (subst getNextScheduledTime_fields) simp_all
  then show ?thesis unfolding at by (simp add: makeDate_def)
qed

lemma start_example:
  "start (fixedZone c) (atTime (fixedZone c) 0 23 1 0 0) newScheduler =
     \<lparr>sc_intervals = [], sc_timers = [(0, Timeout 180000)], sc_next = 1, sc_rounds = 1\<rparr>"
  by (simp add: start_def Let_def first_trigger_delay newScheduler_def)

text \<open>
  C3. \<^verbatim>\<open>start\<close> at 23:01:00, in a zone of any constant offset, followed by
  \<^verbatim>\<open>stop\<close>: the one-shot timer to 23:04:00, whose handle \<^verbatim>\<open>start\<close> did not keep, is
  still pending after \<^verbatim>\<open>stop\<close>; when it fires it runs a round and leaves a repeating
  timer pending.
\<close>

theorem stop_leaves_timeout_pending:
  "stop (start (fixedZone c) (atTime (fixedZone c) 0 23 1 0 0) newScheduler) =
     \<lparr>sc_intervals = [], sc_timers = [(0, Timeout 180000)], sc_next = 1, sc_rounds = 1\<rparr> \<and>
   fire 0 (stop (start (fixedZone c) (atTime (fixedZone c) 0 23 1 0 0) newScheduler)) =
     \<lparr>sc_intervals = [1], sc_timers = [(1, Interval 600000)], sc_next = 2, sc_rounds = 2\<rparr>"
proof -
  have s: "stop (start (fixedZone c) (atTime (fixedZone c) 0 23 1 0 0) newScheduler) =
     \<lparr>sc_intervals = [], sc_timers = [(0, Timeout 180000)], sc_next = 1, sc_rounds = 1\<rparr>"
    unfolding start_example by (simp add: stop_def)
  show ?thesis unfolding s by (simp add: fire_def)
qed

lemma stop_after_start_pending:
  "sc_next sc \<notin> set (sc_intervals sc) \<Longrightarrow>
     (sc_next sc, Timeout (getNextScheduledTime z now - now)) \<in> set (sc_timers (stop (start z now sc)))"
  by (simp add: stop_def start_def Let_def)

lemma stop_clears_stored: "h \<in> set (sc_intervals sc) \<Longrightarrow> map_of (sc_timers (stop sc)) h = None"
  by (auto simp: stop_def map_of_eq_None_iff)

subsection \<open>The life of a cache entry\<close>

lemma map_of_putEntry_same: "map_of (putEntry k e xs) k = Some e"
  by (induction xs) auto

lemma map_of_putEntry_other: "k' \<noteq> k \<Longrightarrow> map_of (putEntry k e xs) k' = map_of xs k'"
  by (induction xs) auto

lemma nc_lookup_nc_set:
  "nc_lookup now k (nc_set t0 k v c) =
     (if now < t0 + cs_ttl c * 1000
      then Some \<lparr>ce_value = v, ce_expires = t0 + cs_ttl c * 1000\<rparr> else None)"
  by (simp add: nc_lookup_def nc_set_def map_of_putEntry_same nc_live_def)

lemma cs_ttl_nc_set: "cs_ttl (nc_set t0 k v c) = cs_ttl c"
  by (simp add: nc_set_def)

lemma neg_div_rounds_up:
  fixes e :: int
  shows "- ((- e) div 1000) = (e + 999) div 1000"
proof -
  define q where "q = e div 1000"
  define r where "r = e mod 1000"
  have e: "e = 1000 * q + r" and r: "0 \<le> r" "r < 1000" by (simp_all add: q_def r_def)
  show ?thesis
  proof (cases "r = 0")
    case True
    have "(1000 * q + 999) div 1000 = q" by (rule int_divmod_unique) simp_all
    moreover have "(1000 * (- q) + 0) div 1000 = - q" by (rule int_divmod_unique) simp_all
    ultimately show ?thesis using True e by simp
  next
    case False
    have "(1000 * (q + 1) + (r - 1)) div 1000 = q + 1"
      using r False by (intro int_divmod_unique) simp_all
    moreover have "(1000 * (- q - 1) + (1000 - r)) div 1000 = - q - 1"
      using r False by (intro int_divmod_unique) simp_all
    moreover have "e + 999 = 1000 * (q + 1) + (r - 1)" "- e = 1000 * (- q - 1) + (1000 - r)"
      using e by simp_all
    ultimately show ?thesis by simp
  qed
qed

lemma age_rounds_up:
  fixes e ttl :: int
  shows "ttl - (ttl * 1000 - e) div 1000 = (e + 999) div 1000"
proof -
  have "(ttl * 1000 - e) div 1000 = (- e + ttl * 1000) div 1000" by simp
  also have "\<dots> = (- e) div 1000 + ttl" by simp
  finally have "ttl - (ttl * 1000 - e) div 1000 = - ((- e) div 1000)" by simp
  then show ?thesis by (simp only: neg_div_rounds_up)
qed

lemma getCacheAge_after_set:
  assumes "0 < cs_ttl c" "0 \<le> t0" "now - t0 < cs_ttl c * 1000"
  shows "getCacheAge now k (nc_set t0 k v c) = Some ((now - t0 + 999) div 1000)"
proof -
  have "t0 + cs_ttl c * 1000 - now = cs_ttl c * 1000 - (now - t0)" by simp
  then have "cs_ttl c - (t0 + cs_ttl c * 1000 - now) div 1000 = (now - t0 + 999) div 1000"
    using age_rounds_up[of "cs_ttl c" "now - t0"] by simp
  moreover have "t0 + cs_ttl c * 1000 \<noteq> 0" using assms(1,2) by simp
  moreover have "now < t0 + cs_ttl c * 1000" using assms(3) by simp
  ultimately show ?thesis
    by (simp add: getCacheAge_def nc_getTtl_def nc_lookup_nc_set cs_ttl_nc_set)
qed

lemma getCacheAge_monotone:
  assumes "now \<le> now'" "getCacheAge now k c = Some a" "getCacheAge now' k c = Some a'"
  shows "a \<le> a'"
proof -
  from assms(2) obtain e where e: "map_of (cs_data c) k = Some e"
    and a: "a = cs_ttl c - (ce_expires e - now) div 1000"
    by (auto simp: getCacheAge_def nc_getTtl_def nc_lookup_def split: option.splits if_splits)
  from assms(3) e have a': "a' = cs_ttl c - (ce_expires e - now') div 1000"
    by (auto simp: getCacheAge_def nc_getTtl_def nc_lookup_def split: option.splits if_splits)
  have "(ce_expires e - now') div 1000 \<le> (ce_expires e - now) div 1000"
    using assms(1) by (intro zdiv_mono1) auto
  then show ?thesis unfolding a a' by simp
qed

text \<open>
  C8, as the code has it. After \<^verbatim>\<open>set(k, v)\<close> at the clock reading \<open>t0\<close> (not
  negative, as \<^verbatim>\<open>Date.now()\<close> is), with a positive TTL:
  while less than the TTL has elapsed, \<^verbatim>\<open>get(k)\<close> gives \<open>v\<close>, \<^verbatim>\<open>has(k)\<close> is true and
  \<^verbatim>\<open>getCacheAge(k)\<close> is the elapsed time rounded up to whole seconds, at most the TTL;
  once the TTL has elapsed all three are empty or false, with no sweep. The age never
  decreases while the entry lives, and is empty for a key that is not in the cache.
\<close>

theorem cache_entry_lifetime:
  "0 < cs_ttl c \<and> 0 \<le> t0 \<and> t0 \<le> now \<longrightarrow>
     (now - t0 < cs_ttl c * 1000 \<longrightarrow>
        cache_get now k (snd (cache_set t0 k v c)) = Some v \<and>
        cache_has now k (snd (cache_set t0 k v c)) \<and>
        getCacheAge now k (snd (cache_set t0 k v c)) = Some ((now - t0 + 999) div 1000) \<and>
        (now - t0 + 999) div 1000 \<le> cs_ttl c) \<and>
     (cs_ttl c * 1000 \<le> now - t0 \<longrightarrow>
        cache_get now k (snd (cache_set t0 k v c)) = None \<and>
        \<not> cache_has now k (snd (cache_set t0 k v c)) \<and>
        getCacheAge now k (snd (cache_set t0 k v c)) = None) \<and>
     (\<forall>now' a a'. now \<le> now' \<and>
        getCacheAge now k (snd (cache_set t0 k v c)) = Some a \<and>
        getCacheAge now' k (snd (cache_set t0 k v c)) = Some a' \<longrightarrow> a \<le> a') \<and>
     (\<forall>k'. map_of (cs_data c) k' = None \<longrightarrow> getCacheAge now k' c = None)"
proof (intro impI conjI allI)
  assume h: "0 < cs_ttl c \<and> 0 \<le> t0 \<and> t0 \<le> now"
  {
    assume l: "now - t0 < cs_ttl c * 1000"
    then have lt: "now < t0 + cs_ttl c * 1000" by simp
    show "cache_get now k (snd (cache_set t0 k v c)) = Some v"
      using lt by (simp add: cache_get_def cache_set_def nc_get_def nc_lookup_nc_set)
    show "cache_has now k (snd (cache_set t0 k v c))"
      using lt by (simp add: cache_has_def cache_set_def nc_has_def nc_lookup_nc_set)
    show "getCacheAge now k (snd (cache_set t0 k v c)) = Some ((now - t0 + 999) div 1000)"
      using h l by (simp add: cache_set_def getCacheAge_after_set)
    have "now - t0 + 999 < (cs_ttl c + 1) * 1000" using l by simp
    then have "(now - t0 + 999) div 1000 < cs_ttl c + 1"
      by (simp add: div_less_iff_less_mult)
    then show "(now - t0 + 999) div 1000 \<le> cs_ttl c" by simp
  }
  {
    assume "cs_ttl c * 1000 \<le> now - t0"
    then have ge: "\<not> now < t0 + cs_ttl c * 1000" by simp
    show "cache_get now k (snd (cache_set t0 k v c)) = None"
      using ge by (simp add: cache_get_def cache_set_def nc_get_def nc_lookup_nc_set)
    show "\<not> cache_has now k (snd (cache_set t0 k v c))"
      using ge by (simp add: cache_has_def cache_set_def nc_has_def nc_lookup_nc_set)
    show "getCacheAge now k (snd (cache_set t0 k v c)) = None"
      using ge by (simp add: cache_set_def getCacheAge_def nc_getTtl_def nc_lookup_nc_set)
  }
  {
    fix now' a a'
    assume "now \<le> now' \<and>
        getCacheAge now k (snd (cache_set t0 k v c)) = Some a \<and>
        getCacheAge now' k (snd (cache_set t0 k v c)) = Some a'"
    then show "a \<le> a'" using getCacheAge_monotone by blast
  }
  {
    fix k'
    assume "map_of (cs_data c) k' = None"
    then show "getCacheAge now k' c = None"
      by (simp add: getCacheAge_def nc_getTtl_def nc_lookup_def)
  }
qed

theorem cache_entry_lifetime_witness:
  "cache_get 899999 ''vacancy:20333'' (snd (cache_set 0 ''vacancy:20333'' vacancyThree (w_cache world0)))
     = Some vacancyThree \<and>
   getCacheAge 899999 ''vacancy:20333'' (snd (cache_set 0 ''vacancy:20333'' vacancyThree (w_cache world0)))
     = Some 900 \<and>
   cache_get 900000 ''vacancy:20333'' (snd (cache_set 0 ''vacancy:20333'' vacancyThree (w_cache world0)))
     = None \<and>
   getCacheAge 0 ''vacancy:20333'' (w_cache world0) = None"
proof -
  define c where "c = w_cache world0"
  have t: "cs_ttl c = 900" and m: "map_of (cs_data c) ''vacancy:20333'' = None"
    by (simp_all add: c_def world0_def)
  have h1: "0 < cs_ttl c \<and> (0::int) \<le> 0 \<and> (0::int) \<le> 899999" using t by simp
  have h2: "0 < cs_ttl c \<and> (0::int) \<le> 0 \<and> (0::int) \<le> 900000" using t by simp
  have h3: "0 < cs_ttl c \<and> (0::int) \<le> 0 \<and> (0::int) \<le> 0" using t by simp
  have l1: "(899999::int) - 0 < cs_ttl c * 1000" using t by simp
  have l2: "cs_ttl c * 1000 \<le> (900000::int) - 0" using t by simp
  note a = cache_entry_lifetime[of c 0 899999 "''vacancy:20333''" vacancyThree, THEN mp, OF h1]
  note b = cache_entry_lifetime[of c 0 900000 "''vacancy:20333''" vacancyThree, THEN mp, OF h2]
  note d = cache_entry_lifetime[of c 0 0 "''vacancy:20333''" vacancyThree, THEN mp, OF h3]
  from a l1 have 1: "cache_get 899999 ''vacancy:20333'' (snd (cache_set 0 ''vacancy:20333'' vacancyThree c))
     = Some vacancyThree" by blast
  from a l1 have "getCacheAge 899999 ''vacancy:20333'' (snd (cache_set 0 ''vacancy:20333'' vacancyThree c))
     = Some ((899999 - 0 + 999) div 1000)" by blast
  then have 2: "getCacheAge 899999 ''vacancy:20333'' (snd (cache_set 0 ''vacancy:20333'' vacancyThree c))
     = Some 900" by simp
  from b l2 have 3: "cache_get 900000 ''vacancy:20333'' (snd (cache_set 0 ''vacancy:20333'' vacancyThree c))
     = None" by blast
  from d m have 4: "getCacheAge 0 ''vacancy:20333'' c = None" by blast
  show ?thesis using 1 2 3 4 unfolding c_def by blast
qed

text \<open>
  Half a second after the insertion no whole second has elapsed, and the age is 1.
\<close>

theorem cache_age_after_half_second:
  "getCacheAge 500 ''vacancy:20333''
     (snd (cache_set 0 ''vacancy:20333'' vacancyThree (w_cache world0))) = Some 1 \<and>
   (500 - 0) div 1000 = (0::int)"
  by (simp add: getCacheAge_def nc_getTtl_def nc_lookup_def nc_live_def nc_set_def
      cache_set_def world0_def)

subsection \<open>The channels of an acquisition\<close>




text \<open>The three ways \<^verbatim>\<open>getVacancy\<close> leaves its acquisition.\<close>

lemma fetchFresh_direct:
  assumes "fetchVacancyFromAPI up c = Inr d"
  shows "fetchFresh up c w =
     (Success d False None,
      w\<lparr>w_cache := nc_set (w_now w) (cacheKeyOf c) d (w_cache w),
        w_log := w_log w @ [ApiCall c, CacheSet (cacheKeyOf c)]\<rparr>)"
  using assms by (simp add: fetchFresh_def cache_set_def)

lemma fetchFresh_rendered:
  assumes "fetchVacancyFromAPI up c = Inl x" "scrapeWithRetry up c 3 = (Inr d, evs)"
  shows "fetchFresh up c w =
     (Success d False None,
      w\<lparr>w_cache := nc_set (w_now w + int (sleepTotal evs)) (cacheKeyOf c) d (w_cache w),
        w_now := w_now w + int (sleepTotal evs),
        w_log := w_log w @ ApiCall c # evs @ [CacheSet (cacheKeyOf c)]\<rparr>)"
  using assms by (simp add: fetchFresh_def cache_set_def)

lemma fetchFresh_failed:
  assumes "fetchVacancyFromAPI up c = Inl x" "scrapeWithRetry up c 3 = (Inl e, evs)"
  shows "fetchFresh up c w =
     (ScrapingError e,
      w\<lparr>w_now := w_now w + int (sleepTotal evs), w_log := w_log w @ ApiCall c # evs\<rparr>)"
  using assms by (simp add: fetchFresh_def)

lemma cache_set_then_get:
  "0 < cs_ttl c \<Longrightarrow> cache_get t k (snd (cache_set t k d c)) = Some d"
  by (simp add: cache_get_def cache_set_def nc_get_def nc_lookup_nc_set)

lemma getVacancy_fresh_eq:
  assumes "validStoreCode (param_storeCode req)" "query_noCache req = QString ''true''"
  shows "getVacancy up req w = fetchFresh up (param_storeCode req) w"
  using assms by (simp add: getVacancy_def Let_def)

lemma getVacancy_hit_eq:
  assumes "validStoreCode (param_storeCode req)" "query_noCache req \<noteq> QString ''true''"
    and "cache_get (w_now w) (cacheKeyOf (param_storeCode req)) (w_cache w) = Some d"
  shows "getVacancy up req w =
     (Success d True (getCacheAge (w_now w) (cacheKeyOf (param_storeCode req)) (w_cache w)),
      w\<lparr>w_log := w_log w @ [CacheGet (cacheKeyOf (param_storeCode req))]\<rparr>)"
  using assms by (simp add: getVacancy_def Let_def)

lemma getVacancy_miss_eq:
  assumes "validStoreCode (param_storeCode req)" "query_noCache req \<noteq> QString ''true''"
    and "cache_get (w_now w) (cacheKeyOf (param_storeCode req)) (w_cache w) = None"
  shows "getVacancy up req w =
     fetchFresh up (param_storeCode req)
       (w\<lparr>w_log := w_log w @ [CacheGet (cacheKeyOf (param_storeCode req))]\<rparr>)"
  using assms by (simp add: getVacancy_def Let_def)

text \<open>
  The acquisition of a request, after the events \<open>pre\<close> of its cache lookup: none with
  \<^verbatim>\<open>noCache=true\<close>, the lookup on a miss.
\<close>

lemma getVacancy_acquires:
  assumes "validStoreCode (param_storeCode req)"
    and "(query_noCache req = QString ''true'' \<and> pre = []) \<or>
         (query_noCache req \<noteq> QString ''true'' \<and>
          cache_get (w_now w) (cacheKeyOf (param_storeCode req)) (w_cache w) = None \<and>
          pre = [CacheGet (cacheKeyOf (param_storeCode req))])"
  shows "getVacancy up req w =
           fetchFresh up (param_storeCode req) (w\<lparr>w_log := w_log w @ pre\<rparr>)"
  using assms(2)
proof
  assume "query_noCache req = QString ''true'' \<and> pre = []"
  then show ?thesis using getVacancy_fresh_eq[OF assms(1), of up w] by simp
next
  assume "query_noCache req \<noteq> QString ''true'' \<and>
          cache_get (w_now w) (cacheKeyOf (param_storeCode req)) (w_cache w) = None \<and>
          pre = [CacheGet (cacheKeyOf (param_storeCode req))]"
  then show ?thesis using getVacancy_miss_eq[OF assms(1), of w up] by simp
qed

lemma getVacancy_direct:
  assumes "validStoreCode (param_storeCode req)"
    and "(query_noCache req = QString ''true'' \<and> pre = []) \<or>
         (query_noCache req \<noteq> QString ''true'' \<and>
          cache_get (w_now w) (cacheKeyOf (param_storeCode req)) (w_cache w) = None \<and>
          pre = [CacheGet (cacheKeyOf (param_storeCode req))])"
    and "fetchVacancyFromAPI up (param_storeCode req) = Inr d"
  shows "getVacancy up req w =
     (Success d False None,
      w\<lparr>w_cache := snd (cache_set (w_now w) (cacheKeyOf (param_storeCode req)) d (w_cache w)),
        w_log := w_log w @ pre @
                 [ApiCall (param_storeCode req), CacheSet (cacheKeyOf (param_storeCode req))]\<rparr>)"
  unfolding getVacancy_acquires[OF assms(1,2)] fetchFresh_direct[OF assms(3)]
  by (simp add: cache_set_def)

lemma getVacancy_rendered:
  assumes "validStoreCode (param_storeCode req)"
    and "(query_noCache req = QString ''true'' \<and> pre = []) \<or>
         (query_noCache req \<noteq> QString ''true'' \<and>
          cache_get (w_now w) (cacheKeyOf (param_storeCode req)) (w_cache w) = None \<and>
          pre = [CacheGet (cacheKeyOf (param_storeCode req))])"
    and "fetchVacancyFromAPI up (param_storeCode req) = Inl x"
    and "scrapeWithRetry up (param_storeCode req) 3 = (Inr d, evs)"
  shows "getVacancy up req w =
     (Success d False None,
      w\<lparr>w_cache := snd (cache_set (w_now w + int (sleepTotal evs))
                          (cacheKeyOf (param_storeCode req)) d (w_cache w)),
        w_now := w_now w + int (sleepTotal evs),
        w_log := w_log w @ pre @ ApiCall (param_storeCode req) # evs @
                 [CacheSet (cacheKeyOf (param_storeCode req))]\<rparr>)"
  unfolding getVacancy_acquires[OF assms(1,2)] fetchFresh_rendered[OF assms(3,4)]
  by (simp add: cache_set_def)

lemma getVacancy_failed:
  assumes "validStoreCode (param_storeCode req)"
    and "(query_noCache req = QString ''true'' \<and> pre = []) \<or>
         (query_noCache req \<noteq> QString ''true'' \<and>
          cache_get (w_now w) (cacheKeyOf (param_storeCode req)) (w_cache w) = None \<and>
          pre = [CacheGet (cacheKeyOf (param_storeCode req))])"
    and "fetchVacancyFromAPI up (param_storeCode req) = Inl x"
    and "scrapeWithRetry up (param_storeCode req) 3 = (Inl e, evs)"
  shows "getVacancy up req w =
     (ScrapingError e,
      w\<lparr>w_now := w_now w + int (sleepTotal evs),
        w_log := w_log w @ pre @ ApiCall (param_storeCode req) # evs\<rparr>)"
  unfolding getVacancy_acquires[OF assms(1,2)] fetchFresh_failed[OF assms(3,4)]
  by simp






text \<open>
  C9. For a valid store code: when \<^verbatim>\<open>noCache\<close> is exactly the string "true",
  \<^verbatim>\<open>getVacancy\<close> makes no cache lookup and goes to the acquisition at once: the record
  of the structured endpoint, or, when that call fails, the record of the retry loop with
  three attempts, is written to the cache and returned with \<^verbatim>\<open>cached: false\<close> and no
  age; when both fail the answer is the error of the retry loop and the cache is as
  before. For every other value, an absent one too, a live entry is returned with
  \<^verbatim>\<open>cached: true\<close> and its age after the lookup alone, and without a live entry the
  lookup is followed by the same acquisition. A record written to a cache of positive TTL
  is what a lookup at that instant gives.
\<close>

theorem getVacancy_noCache:
  "validStoreCode (param_storeCode req) \<longrightarrow>
     (\<forall>pre.
        (query_noCache req = QString ''true'' \<and> pre = []) \<or>
        (query_noCache req \<noteq> QString ''true'' \<and>
         cache_get (w_now w) (cacheKeyOf (param_storeCode req)) (w_cache w) = None \<and>
         pre = [CacheGet (cacheKeyOf (param_storeCode req))]) \<longrightarrow>
        (\<forall>d. fetchVacancyFromAPI up (param_storeCode req) = Inr d \<longrightarrow>
           getVacancy up req w =
             (Success d False None,
              w\<lparr>w_cache := snd (cache_set (w_now w) (cacheKeyOf (param_storeCode req)) d
                                  (w_cache w)),
                w_log := w_log w @ pre @
                         [ApiCall (param_storeCode req),
                          CacheSet (cacheKeyOf (param_storeCode req))]\<rparr>)) \<and>
        (\<forall>x d evs. fetchVacancyFromAPI up (param_storeCode req) = Inl x \<and>
             scrapeWithRetry up (param_storeCode req) 3 = (Inr d, evs) \<longrightarrow>
           getVacancy up req w =
             (Success d False None,
              w\<lparr>w_cache := snd (cache_set (w_now w + int (sleepTotal evs))
                                  (cacheKeyOf (param_storeCode req)) d (w_cache w)),
                w_now := w_now w + int (sleepTotal evs),
                w_log := w_log w @ pre @ ApiCall (param_storeCode req) # evs @
                         [CacheSet (cacheKeyOf (param_storeCode req))]\<rparr>)) \<and>
        (\<forall>x e evs. fetchVacancyFromAPI up (param_storeCode req) = Inl x \<and>
             scrapeWithRetry up (param_storeCode req) 3 = (Inl e, evs) \<longrightarrow>
           getVacancy up req w =
             (ScrapingError e,
              w\<lparr>w_now := w_now w + int (sleepTotal evs),
                w_log := w_log w @ pre @ ApiCall (param_storeCode req) # evs\<rparr>))) \<and>
     (query_noCache req \<noteq> QString ''true'' \<longrightarrow>
        (\<forall>d. cache_get (w_now w) (cacheKeyOf (param_storeCode req)) (w_cache w) = Some d \<longrightarrow>
             getVacancy up req w =
               (Success d True
                  (getCacheAge (w_now w) (cacheKeyOf (param_storeCode req)) (w_cache w)),
                w\<lparr>w_log := w_log w @ [CacheGet (cacheKeyOf (param_storeCode req))]\<rparr>))) \<and>
     (\<forall>t k d. \<forall>c::cacheService. 0 < cs_ttl c \<longrightarrow> cache_get t k (snd (cache_set t k d c)) = Some d)"
proof (intro impI conjI allI)
  assume v: "validStoreCode (param_storeCode req)"
  {
    fix pre
    assume p: "(query_noCache req = QString ''true'' \<and> pre = []) \<or>
        (query_noCache req \<noteq> QString ''true'' \<and>
         cache_get (w_now w) (cacheKeyOf (param_storeCode req)) (w_cache w) = None \<and>
         pre = [CacheGet (cacheKeyOf (param_storeCode req))])"
    {
      fix d
      assume "fetchVacancyFromAPI up (param_storeCode req) = Inr d"
      then show "getVacancy up req w =
             (Success d False None,
              w\<lparr>w_cache := snd (cache_set (w_now w) (cacheKeyOf (param_storeCode req)) d
                                  (w_cache w)),
                w_log := w_log w @ pre @
                         [ApiCall (param_storeCode req),
                          CacheSet (cacheKeyOf (param_storeCode req))]\<rparr>)"
        by (rule getVacancy_direct[OF v p])
    }
    {
      fix x d evs
      assume "fetchVacancyFromAPI up (param_storeCode req) = Inl x \<and>
             scrapeWithRetry up (param_storeCode req) 3 = (Inr d, evs)"
      then show "getVacancy up req w =
             (Success d False None,
              w\<lparr>w_cache := snd (cache_set (w_now w + int (sleepTotal evs))
                                  (cacheKeyOf (param_storeCode req)) d (w_cache w)),
                w_now := w_now w + int (sleepTotal evs),
                w_log := w_log w @ pre @ ApiCall (param_storeCode req) # evs @
                         [CacheSet (cacheKeyOf (param_storeCode req))]\<rparr>)"
        using getVacancy_rendered[OF v p] by blast
    }
    {
      fix x e evs
      assume "fetchVacancyFromAPI up (param_storeCode req) = Inl x \<and>
             scrapeWithRetry up (param_storeCode req) 3 = (Inl e, evs)"
      then show "getVacancy up req w =
             (ScrapingError e,
              w\<lparr>w_now := w_now w + int (sleepTotal evs),
                w_log := w_log w @ pre @ ApiCall (param_storeCode req) # evs\<rparr>)"
        using getVacancy_failed[OF v p] by blast
    }
  }
  {
    fix d
    assume "query_noCache req \<noteq> QString ''true''"
      and "cache_get (w_now w) (cacheKeyOf (param_storeCode req)) (w_cache w) = Some d"
    then show "getVacancy up req w =
               (Success d True
                  (getCacheAge (w_now w) (cacheKeyOf (param_storeCode req)) (w_cache w)),
                w\<lparr>w_log := w_log w @ [CacheGet (cacheKeyOf (param_storeCode req))]\<rparr>)"
      by (rule getVacancy_hit_eq[OF v])
  }
next
  fix t k d and c :: cacheService
  assume "0 < cs_ttl c"
  then show "cache_get t k (snd (cache_set t k d c)) = Some d"
    by (rule cache_set_then_get)
qed



lemma fetchVacancyFromAPI_upFull: "fetchVacancyFromAPI upFull ''20333'' = Inr vacancyFull"
  by (simp add: fetchVacancyFromAPI_def upFull_def payloadFull_def vacancyFull_def eval_defs)

lemma fetchVacancyFromAPI_upFlaky: "fetchVacancyFromAPI upFlaky ''20333'' = Inl (Error ''403'')"
  by (simp add: fetchVacancyFromAPI_def upFlaky_def)


lemma scrapeWithRetry_upFlaky:
  "scrapeWithRetry upFlaky ''20333'' 3 =
     (Inr vacancyThree,
      [ScrapeCall ''20333'' 1, Sleep 2000, ScrapeCall ''20333'' 2, Sleep 4000,
       ScrapeCall ''20333'' 3])"
proof -
  have fail: "isl (scrapeVacancy upFlaky ''20333'' i)" if "i < 3" for i
    using that by (simp add: scrapeVacancy_def upFlaky_def)
  have ok: "scrapeVacancy upFlaky ''20333'' 3 = Inr vacancyThree"
    by (simp add: scrapeVacancy_def upFlaky_def vacancyThree_def extractDartVacancy_def
        dartSelectors_def docWith_def availableRegex_def totalSlashRegex_def totalAllRegex_def
        parseInt_def is_digit_def is_space_def Let_def toDouble_small ratioBelowPoint3_def)
  have "retryLoop upFlaky ''20333'' 3 1 None =
      (Inr vacancyThree, failedAttempts ''20333'' 1 3 @ [ScrapeCall ''20333'' 3])"
    by (rule retryLoop_success) (simp_all add: fail ok)
  then show ?thesis by (simp add: scrapeWithRetry_def failedAttempts_def upt_conv_Cons)
qed

lemma valid_20333: "validStoreCode ''20333''"
  by (simp add: validStoreCode_def)

theorem getVacancy_noCache_witness:
  "getVacancy upFull reqNoCache worldCached =
     (Success vacancyFull False None,
      worldCached
        \<lparr>w_cache := snd (cache_set 0 ''vacancy:20333'' vacancyFull (w_cache worldCached)),
         w_log := [ApiCall ''20333'', CacheSet ''vacancy:20333'']\<rparr>) \<and>
   getVacancy upFlaky reqNoCache worldCached =
     (Success vacancyThree False None,
      worldCached
        \<lparr>w_cache := snd (cache_set 6000 ''vacancy:20333'' vacancyThree (w_cache worldCached)),
         w_now := 6000,
         w_log := [ApiCall ''20333'', ScrapeCall ''20333'' 1, Sleep 2000, ScrapeCall ''20333'' 2,
                   Sleep 4000, ScrapeCall ''20333'' 3, CacheSet ''vacancy:20333'']\<rparr>) \<and>
   getVacancy upFull reqPlain worldCached =
     (Success vacancyThree True (Some 0),
      worldCached\<lparr>w_log := [CacheGet ''vacancy:20333'']\<rparr>) \<and>
   cache_get 0 ''vacancy:20333''
     (snd (cache_set 0 ''vacancy:20333'' vacancyFull (w_cache worldCached))) = Some vacancyFull"
proof -
  have c: "param_storeCode reqNoCache = ''20333''" "param_storeCode reqPlain = ''20333''"
    by (simp_all add: reqNoCache_def reqPlain_def)
  have v1: "validStoreCode (param_storeCode reqNoCache)" by (simp add: c valid_20333)
  have v2: "validStoreCode (param_storeCode reqPlain)" by (simp add: c valid_20333)
  have n1: "query_noCache reqNoCache = QString ''true''" by (simp add: reqNoCache_def)
  have n2: "query_noCache reqPlain \<noteq> QString ''true''" by (simp add: reqPlain_def)
  have k: "cacheKeyOf ''20333'' = ''vacancy:20333''" by (simp add: cacheKeyOf_def)
  have w: "w_now worldCached = 0" "w_log worldCached = []" "cs_ttl (w_cache worldCached) = 900"
    by (simp_all add: worldCached_def)
  have hit: "cache_get (w_now worldCached) (cacheKeyOf (param_storeCode reqPlain)) (w_cache worldCached) =
     Some vacancyThree"
    by (simp add: cache_get_def nc_get_def nc_lookup_def nc_live_def worldCached_def c k)
  have age: "getCacheAge (w_now worldCached) (cacheKeyOf (param_storeCode reqPlain)) (w_cache worldCached) =
     Some 0"
    by (simp add: getCacheAge_def nc_getTtl_def nc_lookup_def nc_live_def worldCached_def c k)
  have p: "(query_noCache reqNoCache = QString ''true'' \<and> ([]::event list) = []) \<or>
        (query_noCache reqNoCache \<noteq> QString ''true'' \<and>
         cache_get (w_now worldCached) (cacheKeyOf (param_storeCode reqNoCache)) (w_cache worldCached) = None \<and>
         [] = [CacheGet (cacheKeyOf (param_storeCode reqNoCache))])"
    using n1 by simp
  note a = getVacancy_noCache[of reqNoCache worldCached upFull, THEN mp, OF v1]
  note b = getVacancy_noCache[of reqNoCache worldCached upFlaky, THEN mp, OF v1]
  note d = getVacancy_noCache[of reqPlain worldCached upFull, THEN mp, OF v2]
  note a1 = a[THEN conjunct1, rule_format, OF p]
  note b1 = b[THEN conjunct1, rule_format, OF p]
  have 1: "getVacancy upFull reqNoCache worldCached =
     (Success vacancyFull False None,
      worldCached
        \<lparr>w_cache := snd (cache_set 0 ''vacancy:20333'' vacancyFull (w_cache worldCached)),
         w_log := [ApiCall ''20333'', CacheSet ''vacancy:20333'']\<rparr>)"
    using a1[THEN conjunct1, rule_format, OF fetchVacancyFromAPI_upFull[folded c(1)]]
    by (simp add: c k w)
  have 2: "getVacancy upFlaky reqNoCache worldCached =
     (Success vacancyThree False None,
      worldCached
        \<lparr>w_cache := snd (cache_set 6000 ''vacancy:20333'' vacancyThree (w_cache worldCached)),
         w_now := 6000,
         w_log := [ApiCall ''20333'', ScrapeCall ''20333'' 1, Sleep 2000, ScrapeCall ''20333'' 2,
                   Sleep 4000, ScrapeCall ''20333'' 3, CacheSet ''vacancy:20333'']\<rparr>)"
    using b1[THEN conjunct2, THEN conjunct1, rule_format,
        OF conjI[OF fetchVacancyFromAPI_upFlaky[folded c(1)] scrapeWithRetry_upFlaky[folded c(1)]]]
    by (simp add: c k w)
  have 3: "getVacancy upFull reqPlain worldCached =
     (Success vacancyThree True (Some 0),
      worldCached\<lparr>w_log := [CacheGet ''vacancy:20333'']\<rparr>)"
    using d[THEN conjunct2, THEN conjunct1, rule_format, OF n2 hit]
    by (simp add: age) (simp add: c k w)
  have 4: "cache_get 0 ''vacancy:20333''
     (snd (cache_set 0 ''vacancy:20333'' vacancyFull (w_cache worldCached))) = Some vacancyFull"
    using a[THEN conjunct2, THEN conjunct2, rule_format, of "w_cache worldCached"] w(3)
    by simp
  show ?thesis
    using 1 2 3 4 by blast
qed






end
